theory Spec2Isabelle
  imports Main "HOL-Library.AList"
begin

section \<open>Python values\<close>

text \<open>
  Exceptions are values.  \<open>KeyError\<close> carries the key that was looked up, and
  \<open>EdgarAPIError\<close> carries the three arguments of its constructor in
  \<^verbatim>\<open>EdgarAPIError.py\<close>: the origin exception, the status code and the URL.
  \<open>RequestException\<close> is an exception of the \<^verbatim>\<open>requests\<close> library that reaches
  the caller as it was raised.
\<close>

datatype request_exception =
    HTTPError nat string
  | ConnectionError
  | Timeout
  | RetryError
  | TooManyRedirects

datatype py_error =
    KeyError string
  | IndexError
  | ValueError
  | TypeError
  | AttributeError
  | JSONDecodeError
  | SystemExit
  | RequestException request_exception
  | EdgarAPIError request_exception "nat option" "string option"

text \<open>
  A Python \<^verbatim>\<open>dict\<close> with string keys is an association list in insertion order:
  \<open>d[k]\<close> is \<open>map_of d k\<close> (\<open>KeyError\<close> when it is \<open>None\<close>) and
  \<open>d[k] = v\<close> is \<open>AList.update k v d\<close>, which overwrites in place or appends.
\<close>

type_synonym 'a submissions = "(string \<times> 'a list) list"

definition keys :: "('k \<times> 'v) list \<Rightarrow> 'k list" where
  "keys d = map fst d"

definition getitem :: "(string \<times> 'v) list \<Rightarrow> string \<Rightarrow> py_error + 'v" where
  "getitem d k = (case map_of d k of None \<Rightarrow> Inl (KeyError k) | Some v \<Rightarrow> Inr v)"

section \<open>\<^verbatim>\<open>_utils.py\<close>: merging the pages of a filing history\<close>

text \<open>
  \<^verbatim>\<open>list(chain.from_iterable(d[k] for d in to_merge))\<close>: the lists under key \<open>k\<close>
  of every dictionary, in listed order, concatenated; the first dictionary without
  the key raises.
\<close>

fun chain_from_iterable :: "string \<Rightarrow> 'a submissions list \<Rightarrow> py_error + 'a list" where
  "chain_from_iterable k [] = Inr []"
| "chain_from_iterable k (d # ds) =
     (case getitem d k of
        Inl e \<Rightarrow> Inl e
      | Inr v \<Rightarrow>
         (case chain_from_iterable k ds of
            Inl e \<Rightarrow> Inl e
          | Inr vs \<Rightarrow> Inr (v @ vs)))"

text \<open>The loop \<^verbatim>\<open>for k in to_merge[0].keys(): merged[k] = ...\<close>.\<close>

fun merge_keys :: "string list \<Rightarrow> 'a submissions list \<Rightarrow> 'a submissions
    \<Rightarrow> py_error + 'a submissions" where
  "merge_keys [] to_merge merged = Inr merged"
| "merge_keys (k # ks) to_merge merged =
     (case chain_from_iterable k to_merge of
        Inl e \<Rightarrow> Inl e
      | Inr v \<Rightarrow> merge_keys ks to_merge (AList.update k v merged))"

text \<open>\<^verbatim>\<open>to_merge[0]\<close> raises \<open>IndexError\<close> on the empty list.\<close>

definition merge_submission_dicts :: "'a submissions list \<Rightarrow> py_error + 'a submissions" where
  "merge_submission_dicts to_merge =
     (case to_merge of
        [] \<Rightarrow> Inl IndexError
      | d0 # _ \<Rightarrow> merge_keys (keys d0) to_merge [])"

text \<open>The list stored under a key that is present (the empty list stands for no key).\<close>

definition column :: "string \<Rightarrow> 'a submissions \<Rightarrow> 'a list" where
  "column k d = (case map_of d k of None \<Rightarrow> [] | Some v \<Rightarrow> v)"

section \<open>Strings\<close>

text \<open>
  A \<open>string\<close> is a list of bytes, so the functions below are Python's on ASCII text:
  ticker symbols, identifiers, accession numbers, dates and file names.
\<close>

definition whitespace :: "char list" where
  "whitespace = [CHR 0x09, CHR 0x0A, CHR 0x0B, CHR 0x0C, CHR 0x0D,
                 CHR 0x1C, CHR 0x1D, CHR 0x1E, CHR 0x1F, CHR 0x20]"

text \<open>\<^verbatim>\<open>s.strip(chars)\<close> removes the characters of \<open>chars\<close> from both ends.\<close>

definition strip_chars :: "char list \<Rightarrow> string \<Rightarrow> string" where
  "strip_chars chars s =
     rev (dropWhile (\<lambda>c. c \<in> set chars) (rev (dropWhile (\<lambda>c. c \<in> set chars) s)))"

definition strip :: "string \<Rightarrow> string" where
  "strip s = strip_chars whitespace s"

definition upper_char :: "char \<Rightarrow> char" where
  "upper_char c =
     (case map_of (zip ''abcdefghijklmnopqrstuvwxyz'' ''ABCDEFGHIJKLMNOPQRSTUVWXYZ'') c of
        None \<Rightarrow> c
      | Some u \<Rightarrow> u)"

definition upper :: "string \<Rightarrow> string" where
  "upper s = map upper_char s"

text \<open>
  \<^verbatim>\<open>s.zfill(width)\<close> pads with zeros on the left; a leading sign stays in front.
\<close>

definition zfill :: "nat \<Rightarrow> string \<Rightarrow> string" where
  "zfill width s =
     (if width \<le> length s then s
      else
        (case s of
           [] \<Rightarrow> replicate width CHR ''0''
         | c # cs \<Rightarrow>
            if c = CHR ''+'' \<or> c = CHR ''-''
            then c # replicate (width - length s) CHR ''0'' @ cs
            else replicate (width - length s) CHR ''0'' @ s))"

definition endswith :: "string \<Rightarrow> string \<Rightarrow> bool" where
  "endswith s suffix = (length suffix \<le> length s \<and> drop (length s - length suffix) s = suffix)"

text \<open>
  \<^verbatim>\<open>s.replace(old, new)\<close> replaces the occurrences of \<open>old\<close> found from left to
  right without overlap; with an empty \<open>old\<close> it puts \<open>new\<close> around every character.
\<close>

function py_replace :: "string \<Rightarrow> string \<Rightarrow> string \<Rightarrow> string" where
  "py_replace old new s =
     (if old = [] then new @ concat (map (\<lambda>c. c # new) s)
      else if s = [] then []
      else if take (length old) s = old then new @ py_replace old new (drop (length old) s)
      else hd s # py_replace old new (tl s))"
  by pat_completeness auto
termination
  by (relation "measure (\<lambda>(old, new, s). length s)") auto

declare py_replace.simps [simp del]

text \<open>
  \<^verbatim>\<open>Path(doc).name\<close> and \<^verbatim>\<open>Path(doc).suffix\<close> of a POSIX path: the name is the last
  component that is neither empty nor \<^verbatim>\<open>.\<close>; the suffix starts at the last dot of the
  name, unless that dot is the first or the last character of the name.
\<close>

fun split_on :: "char \<Rightarrow> string \<Rightarrow> string list" where
  "split_on sep [] = [[]]"
| "split_on sep (c # cs) =
     (if c = sep then [] # split_on sep cs
      else (case split_on sep cs of
              [] \<Rightarrow> [[c]]
            | p # ps \<Rightarrow> (c # p) # ps))"

definition path_name :: "string \<Rightarrow> string" where
  "path_name p =
     (case filter (\<lambda>part. part \<noteq> [] \<and> part \<noteq> ''.'') (split_on CHR ''/'' p) of
        [] \<Rightarrow> []
      | part # parts \<Rightarrow> last (part # parts))"

definition path_suffix :: "string \<Rightarrow> string" where
  "path_suffix p =
     (let name = path_name p;
          ext = rev (takeWhile (\<lambda>c. c \<noteq> CHR ''.'') (rev name))
      in if CHR ''.'' \<in> set name \<and> ext \<noteq> [] \<and> length ext + 1 < length name
         then CHR ''.'' # ext
         else [])"

text \<open>
  \<^verbatim>\<open>int(s)\<close> accepts an optional sign and decimal digits with single underscores
  between them, with white space around.
\<close>

definition isdigit :: "char \<Rightarrow> bool" where
  "isdigit c = (c \<in> set ''0123456789'')"

fun digits_ok :: "string \<Rightarrow> bool" and digits_rest :: "string \<Rightarrow> bool" where
  "digits_ok [] = False"
| "digits_ok (c # cs) = (isdigit c \<and> digits_rest cs)"
| "digits_rest [] = True"
| "digits_rest (c # cs) = (if c = CHR ''_'' then digits_ok cs else isdigit c \<and> digits_rest cs)"

definition int_parses :: "string \<Rightarrow> bool" where
  "int_parses s =
     (case strip s of
        [] \<Rightarrow> False
      | c # cs \<Rightarrow> if c = CHR ''+'' \<or> c = CHR ''-'' then digits_ok cs else digits_ok (c # cs))"

text \<open>
  \<^verbatim>\<open>re.search(r'\d{4}-\d{2}-\d{2}', s).group(0)\<close>: the leftmost date stamp of a
  string, \<open>None\<close> when the search finds nothing.
\<close>

definition date_stamp_here :: "string \<Rightarrow> bool" where
  "date_stamp_here s =
     (10 \<le> length s \<and>
      list_all isdigit (take 4 s) \<and> s ! 4 = CHR ''-'' \<and>
      list_all isdigit (take 2 (drop 5 s)) \<and> s ! 7 = CHR ''-'' \<and>
      list_all isdigit (take 2 (drop 8 s)))"

fun search_date_stamp :: "string \<Rightarrow> string option" where
  "search_date_stamp [] = None"
| "search_date_stamp (c # cs) =
     (if date_stamp_here (c # cs) then Some (take 10 (c # cs)) else search_date_stamp cs)"

section \<open>Dates and the constants of \<^verbatim>\<open>_constants.py\<close>\<close>

text \<open>A \<^verbatim>\<open>datetime.date\<close>; dates compare as (year, month, day).\<close>

record date =
  year :: nat
  month :: nat
  day :: nat

definition date_lt :: "date \<Rightarrow> date \<Rightarrow> bool" where
  "date_lt a b =
     (year a < year b \<or>
      (year a = year b \<and> (month a < month b \<or> (month a = month b \<and> day a < day b))))"

definition date_le :: "date \<Rightarrow> date \<Rightarrow> bool" where
  "date_le a b = (date_lt a b \<or> (year a = year b \<and> month a = month b \<and> day a = day b))"

text \<open>\<^verbatim>\<open>max(a, b)\<close> returns its first argument unless the second is greater.\<close>

definition max_date :: "date \<Rightarrow> date \<Rightarrow> date" where
  "max_date a b = (if date_lt a b then b else a)"

text \<open>
  The module \<^verbatim>\<open>_constants.py\<close> is not among the sources, so its values are
  parameters.  The URL templates are the functions that \<^verbatim>\<open>str.format\<close> makes of them,
  and \<open>strptime\<close> is \<^verbatim>\<open>dt.strptime(s, DATE_FORMAT_TOKENS).date()\<close>, with \<open>None\<close> for
  the \<open>ValueError\<close> of a string that does not parse.
\<close>

record constants =
  AMENDS_SUFFIX :: string
  CIK_LENGTH :: nat
  SUPPORTED_FORMS :: "string list"
  DEFAULT_AFTER_DATE :: date
  DEFAULT_BEFORE_DATE :: date
  strptime :: "string \<Rightarrow> date option"
  URL_FILING :: "string \<Rightarrow> string \<Rightarrow> string \<Rightarrow> string"
  URL_SUBMISSIONS :: "string \<Rightarrow> string"
  URL_PAGINATED_SUBMISSIONS :: "string \<Rightarrow> string"
  URL_CIK_MAPPING :: string
  HOST_DATA_SEC :: string
  HOST_WWW_SEC :: string
  ROOT_FORMS_SAVE_FOLDER_NAME :: string
  FORM_FULL_SUBMISSION_FILENAME :: string
  PRIMARY_DOC_FILENAME_STEM :: string

definition sys_maxsize :: int where
  "sys_maxsize = 2 ^ 63 - 1"

section \<open>\<^verbatim>\<open>_utils.py\<close>: identifiers and dates\<close>

definition is_cik :: "string \<Rightarrow> bool" where
  "is_cik cik = (int_parses cik \<and> 1 \<le> length cik \<and> length cik \<le> 10)"

definition validate_and_return_cik ::
    "constants \<Rightarrow> string \<Rightarrow> (string \<times> string) list \<Rightarrow> py_error + string" where
  "validate_and_return_cik C ticker_or_cik ticker_to_cik_mapping =
     (let ticker_or_cik = upper (strip ticker_or_cik) in
      if ticker_or_cik = [] then Inl ValueError
      else if is_cik ticker_or_cik then
        (if length ticker_or_cik > CIK_LENGTH C then Inl ValueError
         else
           (let cik = zfill (CIK_LENGTH C) ticker_or_cik in
            if cik \<notin> set (map snd ticker_to_cik_mapping) then Inl ValueError
            else Inr cik))
      else
        (case map_of ticker_to_cik_mapping ticker_or_cik of
           None \<Rightarrow> Inl ValueError
         | Some cik \<Rightarrow> Inr cik))"

definition validate_and_parse_date :: "constants \<Rightarrow> string \<Rightarrow> py_error + date" where
  "validate_and_parse_date C date_format =
     (case strptime C date_format of
        None \<Rightarrow> Inl ValueError
      | Some d \<Rightarrow> Inr d)"

definition get_valid_after_date :: "constants \<Rightarrow> string option \<Rightarrow> date \<Rightarrow> py_error + date" where
  "get_valid_after_date C after_arg after_date =
     (case after_arg of
        None \<Rightarrow> Inr after_date
      | Some a \<Rightarrow>
         (case validate_and_parse_date C a of
            Inl e \<Rightarrow> Inl e
          | Inr after_date \<Rightarrow> Inr (max_date after_date after_date)))"

section \<open>\<^verbatim>\<open>_types.py\<close>\<close>

record FormsDownloadMetadata =
  download_folder :: string
  forms :: "string list"
  cik :: string
  ticker :: "string option"
  limit :: int
  after :: date
  before :: date
  include_amends :: bool
  download_details :: bool

record FormToDownload =
  form :: string
  raw_filing_uri :: string
  primary_doc_uri :: string
  accession_number :: string
  details_doc_suffix :: string

definition within_requested_date_range ::
    "constants \<Rightarrow> FormsDownloadMetadata \<Rightarrow> string \<Rightarrow> py_error + bool" where
  "within_requested_date_range C download_metadata filing_date =
     (case strptime C filing_date of
        None \<Rightarrow> Inl ValueError
      | Some target_date \<Rightarrow>
         Inr (date_le (after download_metadata) target_date \<and>
              date_le target_date (before download_metadata)))"

section \<open>\<^verbatim>\<open>_BaseClient.py\<close>: the rate-limited transport\<close>

text \<open>
  A request is its URL and the \<^verbatim>\<open>Host\<close> header it is sent with.  The session of the
  \<^verbatim>\<open>requests\<close> library, with its retry adapter, is a parameter: \<open>session_get\<close>
  either raises one of the library's exceptions (\<open>Inl\<close>) or returns a response.
  A response holds its status code, its final URL, what \<^verbatim>\<open>.json()\<close> gives and its
  \<^verbatim>\<open>.content\<close>.  The list of requests sent so far is threaded through every call.
\<close>

type_synonym request = "string \<times> string"

record 'j response =
  status_code :: nat
  url :: string
  json :: "py_error + 'j"
  content :: string

type_synonym 'j session = "request \<Rightarrow> request_exception + 'j response"

text \<open>
  \<^verbatim>\<open>resp.raise_for_status()\<close> raises \<open>HTTPError\<close> for a status code from 400 to 599.
\<close>

definition raise_for_status :: "'j response \<Rightarrow> request_exception option" where
  "raise_for_status resp =
     (if 400 \<le> status_code resp \<and> status_code resp < 600
      then Some (HTTPError (status_code resp) (url resp))
      else None)"

text \<open>
  \<^verbatim>\<open>_rate_limited_get(url, host=host)\<close>.  The call of \<^verbatim>\<open>self._session.get\<close> stands before
  the \<^verbatim>\<open>try\<close>, so what it raises leaves the method as it is; only the exception of
  \<^verbatim>\<open>raise_for_status\<close> is wrapped.  No caller passes \<^verbatim>\<open>headers\<close>.
\<close>

definition rate_limited_get ::
    "constants \<Rightarrow> 'j session \<Rightarrow> string \<Rightarrow> string option \<Rightarrow> request list
     \<Rightarrow> (py_error + 'j response) \<times> request list" where
  "rate_limited_get C session_get u host log =
     (let host_header = (case host of None \<Rightarrow> HOST_DATA_SEC C | Some h \<Rightarrow> h);
          log' = log @ [(u, host_header)]
      in case session_get (u, host_header) of
           Inl e \<Rightarrow> (Inl (RequestException e), log')
         | Inr resp \<Rightarrow>
            (case raise_for_status resp of
               Some e \<Rightarrow> (Inl (EdgarAPIError e (Some (status_code resp)) (Some (url resp))), log')
             | None \<Rightarrow> (Inr resp, log')))"

section \<open>\<^verbatim>\<open>_DownloadFormManager.py\<close>: the pagination aggregator\<close>

definition get_to_download ::
    "constants \<Rightarrow> string \<Rightarrow> string \<Rightarrow> string \<Rightarrow> string \<Rightarrow> FormToDownload" where
  "get_to_download C cik_arg acc_num form_arg doc =
     (let cik_arg = strip_chars ''0'' cik_arg;
          acc_num_no_dash = py_replace ''-'' '''' acc_num;
          raw_filing_uri = URL_FILING C cik_arg acc_num_no_dash (acc_num @ ''.txt'');
          primary_doc_uri = URL_FILING C cik_arg acc_num_no_dash doc;
          primary_doc_suffix = py_replace ''htm'' ''html'' (path_suffix doc)
      in \<lparr>form = form_arg, raw_filing_uri = raw_filing_uri, primary_doc_uri = primary_doc_uri,
          accession_number = acc_num, details_doc_suffix = primary_doc_suffix\<rparr>)"

text \<open>
  The condition of the \<^verbatim>\<open>if ...: continue\<close> of the row loop, with the short circuit of
  \<^verbatim>\<open>or\<close>: the filing date is parsed only for a row that the first two tests let through.
\<close>

definition row_skipped ::
    "constants \<Rightarrow> FormsDownloadMetadata \<Rightarrow> string \<Rightarrow> string \<Rightarrow> py_error + bool" where
  "row_skipped C download_metadata form_arg f_date =
     (if form_arg \<notin> set (forms download_metadata) then Inr True
      else if \<not> include_amends download_metadata \<and> endswith form_arg (AMENDS_SUFFIX C)
      then Inr True
      else
        (case within_requested_date_range C download_metadata f_date of
           Inl e \<Rightarrow> Inl e
         | Inr within \<Rightarrow> Inr (\<not> within)))"

text \<open>
  How the row loop is left: by the \<^verbatim>\<open>return\<close> inside it, or at the end of the page
  with the list and the count it has reached.
\<close>

datatype rows_exit =
    Returned "FormToDownload list"
  | Completed "FormToDownload list" int

text \<open>
  \<^verbatim>\<open>for acc_num, form, doc, f_date in zip(..., strict=True)\<close>: a row is read while all
  four lists have one; when they do not end together, \<^verbatim>\<open>zip\<close> raises \<open>ValueError\<close>.
\<close>

fun rows_loop ::
    "constants \<Rightarrow> FormsDownloadMetadata \<Rightarrow> string list \<Rightarrow> string list \<Rightarrow> string list
     \<Rightarrow> string list \<Rightarrow> FormToDownload list \<Rightarrow> int \<Rightarrow> py_error + rows_exit" where
  "rows_loop C md [] [] [] [] filings_to_download fetched_count =
     Inr (Completed filings_to_download fetched_count)"
| "rows_loop C md (acc_num # accession_numbers) (form_arg # form_list) (doc # documents)
      (f_date # filing_dates) filings_to_download fetched_count =
     (case row_skipped C md form_arg f_date of
        Inl e \<Rightarrow> Inl e
      | Inr True \<Rightarrow>
         rows_loop C md accession_numbers form_list documents filing_dates
           filings_to_download fetched_count
      | Inr False \<Rightarrow>
         (let filings_to_download =
                filings_to_download @ [get_to_download C (cik md) acc_num form_arg doc];
              fetched_count = fetched_count + 1
          in if fetched_count = limit md then Inr (Returned filings_to_download)
             else rows_loop C md accession_numbers form_list documents filing_dates
                    filings_to_download fetched_count))"
| "rows_loop C md _ _ _ _ filings_to_download fetched_count = Inl ValueError"

text \<open>
  What \<^verbatim>\<open>.json()\<close> gives at the submissions endpoints: the first response, with
  \<^verbatim>\<open>filings.recent\<close> and the page names of \<^verbatim>\<open>filings.files\<close>, or a continuation page,
  which is the parallel arrays themselves.
\<close>

datatype submissions_json =
    FilingsJSON "string submissions" "string list"
  | PageJSON "string submissions"

text \<open>
  The branch on \<^verbatim>\<open>additional_submissions is None\<close>: the page to read and the queue of
  page names.  A continuation page read as a first response has no \<^verbatim>\<open>filings\<close> key
  (or a list under it, which has no key \<^verbatim>\<open>recent\<close>); a first response read as a
  continuation page has no \<^verbatim>\<open>accessionNumber\<close> key.
\<close>

definition select_filings ::
    "string list option \<Rightarrow> submissions_json \<Rightarrow> py_error + (string submissions \<times> string list)" where
  "select_filings additional_submissions resp_json =
     (case additional_submissions of
        None \<Rightarrow>
         (case resp_json of
            FilingsJSON recent files \<Rightarrow> Inr (recent, files)
          | PageJSON d \<Rightarrow>
             (case getitem d ''filings'' of
                Inl e \<Rightarrow> Inl e
              | Inr _ \<Rightarrow> Inl TypeError))
      | Some queue \<Rightarrow>
         (case resp_json of
            FilingsJSON _ _ \<Rightarrow> Inl (KeyError ''accessionNumber'')
          | PageJSON d \<Rightarrow> Inr (d, queue)))"

definition page_columns ::
    "string submissions
     \<Rightarrow> py_error + (string list \<times> string list \<times> string list \<times> string list)" where
  "page_columns filings_json =
     (case getitem filings_json ''accessionNumber'' of
        Inl e \<Rightarrow> Inl e
      | Inr accession_numbers \<Rightarrow>
         (case getitem filings_json ''form'' of
            Inl e \<Rightarrow> Inl e
          | Inr form_list \<Rightarrow>
             (case getitem filings_json ''primaryDocument'' of
                Inl e \<Rightarrow> Inl e
              | Inr documents \<Rightarrow>
                 (case getitem filings_json ''filingDate'' of
                    Inl e \<Rightarrow> Inl e
                  | Inr filing_dates \<Rightarrow>
                     Inr (accession_numbers, form_list, documents, filing_dates)))))"

text \<open>
  One request and what the loop body does with its answer, up to the end of the row
  loop: the exit of the row loop and the queue of page names.
\<close>

definition fetch_page ::
    "constants \<Rightarrow> submissions_json session \<Rightarrow> FormsDownloadMetadata \<Rightarrow> string
     \<Rightarrow> string list option \<Rightarrow> FormToDownload list \<Rightarrow> int \<Rightarrow> request list
     \<Rightarrow> (py_error + (rows_exit \<times> string list)) \<times> request list" where
  "fetch_page C S md submissions_uri additional_submissions filings_to_download fetched_count log =
     (case rate_limited_get C S submissions_uri None log of
        (Inl e, log') \<Rightarrow> (Inl e, log')
      | (Inr resp, log') \<Rightarrow>
         (case json resp of
            Inl e \<Rightarrow> (Inl e, log')
          | Inr resp_json \<Rightarrow>
             (case select_filings additional_submissions resp_json of
                Inl e \<Rightarrow> (Inl e, log')
              | Inr (filings_json, queue) \<Rightarrow>
                 (case page_columns filings_json of
                    Inl e \<Rightarrow> (Inl e, log')
                  | Inr (accession_numbers, form_list, documents, filing_dates) \<Rightarrow>
                     (case rows_loop C md accession_numbers form_list documents filing_dates
                             filings_to_download fetched_count of
                        Inl e \<Rightarrow> (Inl e, log')
                      | Inr exit \<Rightarrow> (Inr (exit, queue), log'))))))"

text \<open>
  The \<^verbatim>\<open>while\<close> loop.  \<^verbatim>\<open>filings_available\<close> is never set to false, so the guard is
  the count alone.  The loop ends because every round after the first takes one name
  off the queue.
\<close>

lemma fetch_page_queue:
  "fetch_page C S md u (Some q) fs n log = (Inr (exit, queue), log') \<Longrightarrow> queue = q"
  by (auto simp: fetch_page_def select_filings_def
      split: prod.splits sum.splits submissions_json.splits)

function pages_loop ::
    "constants \<Rightarrow> submissions_json session \<Rightarrow> FormsDownloadMetadata \<Rightarrow> string
     \<Rightarrow> string list option \<Rightarrow> FormToDownload list \<Rightarrow> int \<Rightarrow> request list
     \<Rightarrow> (py_error + FormToDownload list) \<times> request list" where
  "pages_loop C S md submissions_uri additional_submissions filings_to_download fetched_count log =
     (if \<not> fetched_count < limit md then (Inr filings_to_download, log)
      else
        (case fetch_page C S md submissions_uri additional_submissions
                filings_to_download fetched_count log of
           (Inl e, log') \<Rightarrow> (Inl e, log')
         | (Inr (Returned filings, _), log') \<Rightarrow> (Inr filings, log')
         | (Inr (Completed filings fetched, []), log') \<Rightarrow> (Inr filings, log')
         | (Inr (Completed filings fetched, next_page # queue), log') \<Rightarrow>
             pages_loop C S md (URL_PAGINATED_SUBMISSIONS C next_page) (Some queue)
               filings fetched log'))"
  by pat_completeness auto
termination
proof (relation "measures
    [\<lambda>(C, S, md, u, additional, fs, n, log). (case additional of None \<Rightarrow> 1 | Some q \<Rightarrow> 0),
     \<lambda>(C, S, md, u, additional, fs, n, log). (case additional of None \<Rightarrow> 0 | Some q \<Rightarrow> length q)]",
    goal_cases)
  case 1
  then show ?case by simp
next
  case (2 C S md u additional fs n log x1 log' x2 exit queue filings fetched next_page rest)
  then show ?case
  proof (cases additional)
    case None
    then show ?thesis by simp
  next
    case (Some q)
    with 2 have "fetch_page C S md u (Some q) fs n log =
        (Inr (Completed filings fetched, next_page # rest), log')" by simp
    then have "next_page # rest = q" by (rule fetch_page_queue)
    with Some show ?thesis by auto
  qed
qed

declare pages_loop.simps [simp del]

text \<open>\<^verbatim>\<open>aggregate_forms_to_download\<close>, with the requests it sends.\<close>

definition aggregate_forms_to_download ::
    "constants \<Rightarrow> submissions_json session \<Rightarrow> FormsDownloadMetadata \<Rightarrow> request list
     \<Rightarrow> (py_error + FormToDownload list) \<times> request list" where
  "aggregate_forms_to_download C S download_metadata log =
     pages_loop C S download_metadata (URL_SUBMISSIONS C (cik download_metadata)) None [] 0 log"

section \<open>A filing history in pages\<close>

text \<open>
  The words in which the limit of the aggregator is stated.  A session serves a
  filing history when it answers the first request with the recent batch and the
  names of the continuation pages, and the request for each name with its page.  A
  page is well formed when it has the four parallel arrays, all of one length, and
  every filing date parses.  The rows of a page are its arrays zipped; its descriptors
  are those of the rows that the row test lets through, in the order of the page.
\<close>

definition served_page :: "constants \<Rightarrow> submissions_json session \<Rightarrow> string \<Rightarrow> submissions_json \<Rightarrow> bool" where
  "served_page C S u j =
     (case S (u, HOST_DATA_SEC C) of
        Inl e \<Rightarrow> False
      | Inr resp \<Rightarrow> raise_for_status resp = None \<and> json resp = Inr j)"

definition well_formed_page :: "constants \<Rightarrow> string submissions \<Rightarrow> bool" where
  "well_formed_page C d =
     (case page_columns d of
        Inl e \<Rightarrow> False
      | Inr (accession_numbers, form_list, documents, filing_dates) \<Rightarrow>
          length form_list = length accession_numbers \<and>
          length documents = length accession_numbers \<and>
          length filing_dates = length accession_numbers \<and>
          list_all (\<lambda>f_date. strptime C f_date \<noteq> None) filing_dates)"

definition page_rows :: "string submissions \<Rightarrow> (string \<times> string \<times> string \<times> string) list" where
  "page_rows d =
     (case page_columns d of
        Inl e \<Rightarrow> []
      | Inr (accession_numbers, form_list, documents, filing_dates) \<Rightarrow>
          zip accession_numbers (zip form_list (zip documents filing_dates)))"

definition page_descriptors ::
    "constants \<Rightarrow> FormsDownloadMetadata \<Rightarrow> string submissions \<Rightarrow> FormToDownload list" where
  "page_descriptors C md d =
     map (\<lambda>(acc_num, form_arg, doc, f_date). get_to_download C (cik md) acc_num form_arg doc)
       (filter (\<lambda>(acc_num, form_arg, doc, f_date). row_skipped C md form_arg f_date = Inr False)
          (page_rows d))"

definition history_served ::
    "constants \<Rightarrow> submissions_json session \<Rightarrow> FormsDownloadMetadata \<Rightarrow> string submissions
     \<Rightarrow> (string \<times> string submissions) list \<Rightarrow> bool" where
  "history_served C S md recent continuation =
     (served_page C S (URL_SUBMISSIONS C (cik md)) (FilingsJSON recent (map fst continuation)) \<and>
      well_formed_page C recent \<and>
      list_all (\<lambda>(name, page).
                  served_page C S (URL_PAGINATED_SUBMISSIONS C name) (PageJSON page) \<and>
                  well_formed_page C page)
        continuation)"

text \<open>
  The number of pages read until \<open>needed\<close> descriptors have been found, given how many
  each page has: the pages up to the one on which the count is reached, or all of them.
\<close>

fun pages_needed :: "nat \<Rightarrow> nat list \<Rightarrow> nat" where
  "pages_needed needed [] = 0"
| "pages_needed needed (n # ns) =
     (if needed \<le> n then 1 else 1 + pages_needed (needed - n) ns)"

section \<open>\<^verbatim>\<open>_DownloadFormManager.py\<close>: saving the filings\<close>

text \<open>
  The world of a download: the requests sent and the files written, each file a path
  (its components, as \<^verbatim>\<open>Path.__truediv__\<close> joins them) with its contents.  Writing a
  file is not modelled as failing.
\<close>

record world =
  requests :: "request list"
  written :: "(string list \<times> string) list"

definition ticker_text :: "string option \<Rightarrow> string" where
  "ticker_text t = (case t of None \<Rightarrow> ''None'' | Some s \<Rightarrow> s)"

definition get_forms_save_location ::
    "constants \<Rightarrow> FormsDownloadMetadata \<Rightarrow> string \<Rightarrow> string \<Rightarrow> string \<Rightarrow> string list" where
  "get_forms_save_location C download_metadata form_arg accession save_filename =
     [download_folder download_metadata,
      ROOT_FORMS_SAVE_FOLDER_NAME C,
      ticker_text (ticker download_metadata) @ ''-'' @ cik download_metadata,
      form_arg,
      accession,
      save_filename]"

definition save_form_document ::
    "constants \<Rightarrow> string \<Rightarrow> FormsDownloadMetadata \<Rightarrow> FormToDownload \<Rightarrow> string
     \<Rightarrow> world \<Rightarrow> world" where
  "save_form_document C filing_contents download_metadata form_meta_data save_filename w =
     (let save_path = get_forms_save_location C download_metadata (form form_meta_data)
                        (accession_number form_meta_data) save_filename
      in w\<lparr>written := written w @ [(save_path, filing_contents)]\<rparr>)"

text \<open>A request made with the world's list of requests.\<close>

definition world_get ::
    "constants \<Rightarrow> 'j session \<Rightarrow> string \<Rightarrow> string option \<Rightarrow> world
     \<Rightarrow> (py_error + 'j response) \<times> world" where
  "world_get C S u host w =
     (case rate_limited_get C S u host (requests w) of
        (r, log') \<Rightarrow> (r, w\<lparr>requests := log'\<rparr>))"

text \<open>The loop \<^verbatim>\<open>for td in to_download\<close> of \<^verbatim>\<open>fetch_and_save_filings\<close>.\<close>

fun save_loop ::
    "constants \<Rightarrow> submissions_json session \<Rightarrow> FormsDownloadMetadata \<Rightarrow> FormToDownload list
     \<Rightarrow> int \<Rightarrow> world \<Rightarrow> (py_error + int) \<times> world" where
  "save_loop C S md [] successfully_downloaded w = (Inr successfully_downloaded, w)"
| "save_loop C S md (td # to_download) successfully_downloaded w =
     (case world_get C S (raw_filing_uri td) (Some (HOST_WWW_SEC C)) w of
        (Inl e, w1) \<Rightarrow> (Inl e, w1)
      | (Inr raw, w1) \<Rightarrow>
         (let w2 = save_form_document C (content raw) md td (FORM_FULL_SUBMISSION_FILENAME C) w1
          in if download_details md then
               (case world_get C S (primary_doc_uri td) (Some (HOST_WWW_SEC C)) w2 of
                  (Inl e, w3) \<Rightarrow> (Inl e, w3)
                | (Inr primary_doc, w3) \<Rightarrow>
                   save_loop C S md to_download (successfully_downloaded + 1)
                     (save_form_document C (content primary_doc) md td
                        (PRIMARY_DOC_FILENAME_STEM C @ details_doc_suffix td) w3))
             else save_loop C S md to_download (successfully_downloaded + 1) w2))"

definition fetch_and_save_filings ::
    "constants \<Rightarrow> submissions_json session \<Rightarrow> FormsDownloadMetadata \<Rightarrow> world
     \<Rightarrow> (py_error + int) \<times> world" where
  "fetch_and_save_filings C S download_metadata w =
     (case aggregate_forms_to_download C S download_metadata (requests w) of
        (Inl e, log') \<Rightarrow> (Inl e, w\<lparr>requests := log'\<rparr>)
      | (Inr to_download, log') \<Rightarrow>
         save_loop C S download_metadata to_download 0 (w\<lparr>requests := log'\<rparr>))"

section \<open>\<^verbatim>\<open>_DownloadFormManager.py\<close>: the directory of companies\<close>

text \<open>
  The directory response, \<^verbatim>\<open>{"fields": [...], "data": [[...], ...]}\<close>; a cell is held as
  the text that \<^verbatim>\<open>str\<close> makes of it.
\<close>

record directory_json =
  dir_fields :: "string list"
  dir_data :: "string list list"

text \<open>\<^verbatim>\<open>xs.index(x)\<close> raises \<open>ValueError\<close> when \<open>x\<close> is not in the list.\<close>

fun list_index :: "'a list \<Rightarrow> 'a \<Rightarrow> py_error + nat" where
  "list_index [] x = Inl ValueError"
| "list_index (y # ys) x =
     (if y = x then Inr 0
      else (case list_index ys x of Inl e \<Rightarrow> Inl e | Inr i \<Rightarrow> Inr (Suc i)))"

definition list_get :: "'a list \<Rightarrow> nat \<Rightarrow> py_error + 'a" where
  "list_get xs i = (if i < length xs then Inr (xs ! i) else Inl IndexError)"

text \<open>
  The comprehension \<^verbatim>\<open>{str(td[ticker_idx]).upper(): str(td[cik_idx]).zfill(CIK_LENGTH)
  for td in ticker_data}\<close>; a later row with the same key overwrites.
\<close>

fun ticker_to_cik_of ::
    "constants \<Rightarrow> nat \<Rightarrow> nat \<Rightarrow> string list list \<Rightarrow> (string \<times> string) list
     \<Rightarrow> py_error + (string \<times> string) list" where
  "ticker_to_cik_of C ticker_idx cik_idx [] acc = Inr acc"
| "ticker_to_cik_of C ticker_idx cik_idx (td # ticker_data) acc =
     (case list_get td ticker_idx of
        Inl e \<Rightarrow> Inl e
      | Inr t \<Rightarrow>
         (case list_get td cik_idx of
            Inl e \<Rightarrow> Inl e
          | Inr c \<Rightarrow>
             ticker_to_cik_of C ticker_idx cik_idx ticker_data
               (AList.update (upper t) (zfill (CIK_LENGTH C) c) acc)))"

text \<open>
  The two comprehensions over \<^verbatim>\<open>ticker_to_cik.items()\<close>, which store the first
  component of an item under its second: \<^verbatim>\<open>{cik: ticker for ticker, cik in ...}\<close> and
  \<^verbatim>\<open>{cik: name for name, cik in ...}\<close>.
\<close>

definition inverted :: "(string \<times> string) list \<Rightarrow> (string \<times> string) list" where
  "inverted items = fold (\<lambda>(first, second) acc. AList.update second first acc) items []"

definition get_ticker_cik_name_mapping ::
    "constants \<Rightarrow> directory_json session \<Rightarrow> request list
     \<Rightarrow> (py_error + ((string \<times> string) list \<times> (string \<times> string) list \<times> (string \<times> string) list))
        \<times> request list" where
  "get_ticker_cik_name_mapping C S log =
     (case rate_limited_get C S (URL_CIK_MAPPING C) (Some (HOST_WWW_SEC C)) log of
        (Inl e, log') \<Rightarrow> (Inl e, log')
      | (Inr resp, log') \<Rightarrow>
         (case json resp of
            Inl e \<Rightarrow> (Inl e, log')
          | Inr ticker_metadata \<Rightarrow>
             (case list_index (dir_fields ticker_metadata) ''cik'' of
                Inl e \<Rightarrow> (Inl e, log')
              | Inr cik_idx \<Rightarrow>
                 (case list_index (dir_fields ticker_metadata) ''ticker'' of
                    Inl e \<Rightarrow> (Inl e, log')
                  | Inr ticker_idx \<Rightarrow>
                     (case list_index (dir_fields ticker_metadata) ''name'' of
                        Inl e \<Rightarrow> (Inl e, log')
                      | Inr name_idx \<Rightarrow>
                         (case ticker_to_cik_of C ticker_idx cik_idx (dir_data ticker_metadata) [] of
                            Inl e \<Rightarrow> (Inl e, log')
                          | Inr ticker_to_cik \<Rightarrow>
                             (let cik_to_ticker = inverted ticker_to_cik;
                                  cik_to_name = inverted ticker_to_cik
                              in (Inr (ticker_to_cik, cik_to_ticker, cik_to_name), log'))))))))"

section \<open>\<^verbatim>\<open>EdgarClient.py\<close>: downloading the forms of a company\<close>

text \<open>The fields of the client that the download reads, set when the client is made.\<close>

record client =
  parent_download_folder :: string
  facts_save_folder :: string
  ticker_to_cik_mapping :: "(string \<times> string) list"
  cik_to_ticker_mapping :: "(string \<times> string) list"

definition download_forms_by_company ::
    "constants \<Rightarrow> submissions_json session \<Rightarrow> client \<Rightarrow> string \<Rightarrow> string list \<Rightarrow> int option
     \<Rightarrow> string option \<Rightarrow> string option \<Rightarrow> bool \<Rightarrow> bool \<Rightarrow> world
     \<Rightarrow> (py_error + int) \<times> world" where
  "download_forms_by_company C S self ticker_or_cik form_types limit_arg after_arg before_arg
      include_amends_arg download_details_arg w =
     (case validate_and_return_cik C ticker_or_cik (ticker_to_cik_mapping self) of
        Inl e \<Rightarrow> (Inl e, w)
      | Inr cik_val \<Rightarrow>
         (let ticker_val = map_of (cik_to_ticker_mapping self) cik_val;
              limit_val = (case limit_arg of None \<Rightarrow> sys_maxsize | Some l \<Rightarrow> l)
          in if limit_val < 1 then (Inl ValueError, w)
             else
               (case get_valid_after_date C after_arg (DEFAULT_AFTER_DATE C) of
                  Inl e \<Rightarrow> (Inl e, w)
                | Inr after_date \<Rightarrow>
                   (case (case before_arg of
                            None \<Rightarrow> Inr (DEFAULT_BEFORE_DATE C)
                          | Some b \<Rightarrow> validate_and_parse_date C b) of
                      Inl e \<Rightarrow> (Inl e, w)
                    | Inr before_date \<Rightarrow>
                       if date_lt before_date after_date then (Inl ValueError, w)
                       else
                         (let unsupported_forms =
                                filter (\<lambda>f. f \<notin> set (SUPPORTED_FORMS C)) form_types
                          in if unsupported_forms \<noteq> [] then (Inl ValueError, w)
                             else
                               fetch_and_save_filings C S
                                 \<lparr>download_folder = parent_download_folder self,
                                  forms = form_types,
                                  cik = cik_val,
                                  ticker = ticker_val,
                                  limit = limit_val,
                                  after = after_date,
                                  before = before_date,
                                  include_amends = include_amends_arg,
                                  download_details = download_details_arg\<rparr>
                                 w)))))"

section \<open>\<^verbatim>\<open>EdgarClient.py\<close>: the tables of company facts\<close>

text \<open>
  A \<^verbatim>\<open>pandas.DataFrame\<close> with the default row index \<open>0, ..., nrows - 1\<close>: its
  columns in order, each a label with one cell per row.  A cell is \<open>None\<close> where
  pandas has \<^verbatim>\<open>NaN\<close>.
\<close>

record ('k, 'v) frame =
  nrows :: nat
  columns :: "('k \<times> 'v option list) list"

type_synonym 'v event = "(string \<times> 'v) list"

type_synonym label = "string \<times> string \<times> string \<times> string"

text \<open>The elements of a list in the order in which they first occur.\<close>

definition first_seen :: "'a list \<Rightarrow> 'a list" where
  "first_seen xs = rev (remdups (rev xs))"

text \<open>
  \<^verbatim>\<open>pd.DataFrame(events)\<close> of a list of dictionaries: one row per dictionary, one
  column per key of any of them, \<^verbatim>\<open>NaN\<close> where a dictionary has no such key.
\<close>

definition DataFrame :: "'v event list \<Rightarrow> (string, 'v) frame" where
  "DataFrame events =
     \<lparr>nrows = length events,
      columns = map (\<lambda>c. (c, map (\<lambda>e. map_of e c) events))
                  (first_seen (concat (map keys events)))\<rparr>"

text \<open>\<^verbatim>\<open>events_df[missing_column] = np.nan\<close>.\<close>

definition set_nan :: "'k \<Rightarrow> ('k, 'v) frame \<Rightarrow> ('k, 'v) frame" where
  "set_nan c df = df\<lparr>columns := AList.update c (replicate (nrows df) None) (columns df)\<rparr>"

text \<open>
  \<^verbatim>\<open>events_df.columns = pd.MultiIndex.from_product([[a], [b], [c], events_df.columns])\<close>:
  every column label is put under three outer labels.
\<close>

definition with_labels :: "('k \<Rightarrow> 'l) \<Rightarrow> ('k, 'v) frame \<Rightarrow> ('l, 'v) frame" where
  "with_labels f df =
     \<lparr>nrows = nrows df, columns = map (\<lambda>(c, cells). (f c, cells)) (columns df)\<rparr>"

text \<open>
  \<^verbatim>\<open>pd.concat(dataframes, axis=1)\<close>: the columns of all frames side by side, the
  shorter ones filled with \<^verbatim>\<open>NaN\<close>; \<open>ValueError\<close> when there is no frame.
\<close>

definition pd_concat :: "('k, 'v) frame list \<Rightarrow> py_error + ('k, 'v) frame" where
  "pd_concat dataframes =
     (if dataframes = [] then Inl ValueError
      else
        (let n = fold max (map nrows dataframes) 0
         in Inr \<lparr>nrows = n,
                 columns = concat (map (\<lambda>df. map (\<lambda>(c, cells).
                                (c, cells @ replicate (n - length cells) None)) (columns df))
                             dataframes)\<rparr>))"

text \<open>
  \<^verbatim>\<open>multi_df.sort_index()\<close> orders the rows by the row index, which is already
  \<open>0, ..., nrows - 1\<close>.
\<close>

definition sort_index :: "('k, 'v) frame \<Rightarrow> ('k, 'v) frame" where
  "sort_index df = df"

text \<open>
  The JSON document of a company.  A key that may be absent is an option; the
  identifier is held as the text \<^verbatim>\<open>str(data['cik'])\<close>.  Under \<^verbatim>\<open>facts\<close>, a taxonomy
  holds its tags, and a tag (through its key \<^verbatim>\<open>units\<close>) its units, each with its
  list of events.
\<close>

type_synonym 'v taxonomies = "(string \<times> (string \<times> (string \<times> 'v event list) list) list) list"

record 'v company_json =
  cik_text :: "string option"
  entityName :: "string option"
  facts :: "'v taxonomies option"

text \<open>
  The three nested \<^verbatim>\<open>for\<close> loops over taxonomies, tags and units visit the units in
  this order.
\<close>

definition all_units ::
    "'v taxonomies \<Rightarrow> (string \<times> string \<times> string \<times> 'v event list) list" where
  "all_units taxonomies =
     concat (map (\<lambda>(taxonomy_name, tags).
       concat (map (\<lambda>(tag_name, units).
         map (\<lambda>(unit, events). (taxonomy_name, tag_name, unit, events)) units) tags))
       taxonomies)"

definition ALLOWED_DATA_COLUMNS :: "string list" where
  "ALLOWED_DATA_COLUMNS =
     [''start'', ''end'', ''val'', ''accn'', ''fy'', ''fp'', ''form'', ''filed'', ''frame'']"

text \<open>
  The column check of \<^verbatim>\<open>parse_facts_json\<close>.  \<^verbatim>\<open>exit()\<close> raises \<open>SystemExit\<close>.  The
  missing columns are a Python set, whose order of iteration is not fixed; here they
  are added in the order of \<^verbatim>\<open>ALLOWED_DATA_COLUMNS\<close>.
\<close>

definition missing_columns :: "(string, 'v) frame \<Rightarrow> string list" where
  "missing_columns events_df =
     filter (\<lambda>c. c \<notin> set (keys (columns events_df))) ALLOWED_DATA_COLUMNS"

definition check_columns :: "(string, 'v) frame \<Rightarrow> py_error + (string, 'v) frame" where
  "check_columns events_df =
     (if \<not> set ALLOWED_DATA_COLUMNS \<subseteq> set (keys (columns events_df)) then
        (if \<not> set (missing_columns events_df) \<subseteq> {''start'', ''frame''} then Inl SystemExit
         else Inr (fold set_nan (missing_columns events_df) events_df))
      else Inr events_df)"

fun facts_loop ::
    "(string \<times> string \<times> string \<times> 'v event list) list \<Rightarrow> (label, 'v) frame list
     \<Rightarrow> py_error + (label, 'v) frame list" where
  "facts_loop [] dataframes = Inr dataframes"
| "facts_loop ((taxonomy_name, tag_name, unit, events) # rest) dataframes =
     (case check_columns (DataFrame events) of
        Inl e \<Rightarrow> Inl e
      | Inr events_df \<Rightarrow>
         facts_loop rest
           (dataframes @ [with_labels (\<lambda>c. (taxonomy_name, tag_name, unit, c)) events_df]))"

definition parse_facts_json :: "'v company_json \<Rightarrow> py_error + (label, 'v) frame" where
  "parse_facts_json json_dict =
     (case entityName json_dict of
        None \<Rightarrow> Inl (KeyError ''entityName'')
      | Some _ \<Rightarrow>
         (case facts json_dict of
            None \<Rightarrow> Inl (KeyError ''facts'')
          | Some taxonomies \<Rightarrow>
             (case facts_loop (all_units taxonomies) [] of
                Inl e \<Rightarrow> Inl e
              | Inr dataframes \<Rightarrow>
                 (case pd_concat dataframes of
                    Inl e \<Rightarrow> Inl e
                  | Inr multi_df \<Rightarrow> Inr (sort_index multi_df)))))"

section \<open>\<^verbatim>\<open>EdgarClient.py\<close>: extracting the bulk archive\<close>

text \<open>
  The output directory: the files it holds, by path, and the paths written since
  the start.  \<^verbatim>\<open>os.path.exists\<close> looks a path up; \<^verbatim>\<open>to_pickle\<close> writes a file.
\<close>

record 'c filesystem =
  files :: "(string \<times> 'c) list"
  writes :: "string list"

definition os_path_exists :: "'c filesystem \<Rightarrow> string \<Rightarrow> bool" where
  "os_path_exists fs path = (path \<in> set (keys (files fs)))"

definition to_pickle :: "string \<Rightarrow> 'c \<Rightarrow> 'c filesystem \<Rightarrow> 'c filesystem" where
  "to_pickle path c fs =
     fs\<lparr>files := AList.update path c (files fs), writes := writes fs @ [path]\<rparr>"

text \<open>
  The calls of a worker that read the member or touch the output directory, in the
  order in which the worker makes them: \<^verbatim>\<open>json.load\<close> of the member of that name,
  \<^verbatim>\<open>os.path.exists\<close> of a path, \<^verbatim>\<open>pd.DataFrame\<close> of the events of a unit (taxonomy,
  tag, unit), \<^verbatim>\<open>pd.concat\<close> of the frames, \<^verbatim>\<open>to_pickle\<close> to a path.
\<close>

datatype call =
    Json_load string
  | Os_path_exists string
  | Pd_DataFrame string string string
  | Pd_concat
  | To_pickle string

text \<open>
  The body of the \<^verbatim>\<open>try\<close> of \<^verbatim>\<open>_parse_open_json\<close> in three parts; \<open>loaded\<close> is what
  \<^verbatim>\<open>json.load\<close> makes of the member, and \<open>zip_name\<close> the file name of the archive.
  First the path of the output file: the identifier of the document is resolved to
  the ticker symbol, and the date stamp is taken from the name of the archive.
\<close>

definition output_file_path ::
    "constants \<Rightarrow> 'v company_json \<Rightarrow> string \<Rightarrow> (string \<times> string) list
     \<Rightarrow> (string \<times> string) list \<Rightarrow> string \<Rightarrow> py_error + string" where
  "output_file_path C data zip_name ticker_to_cik cik_to_ticker save_folder =
     (case cik_text data of
        None \<Rightarrow> Inl (KeyError ''cik'')
      | Some c \<Rightarrow>
         (case validate_and_return_cik C c ticker_to_cik of
            Inl e \<Rightarrow> Inl e
          | Inr cik_val \<Rightarrow>
             (case getitem cik_to_ticker cik_val of
                Inl e \<Rightarrow> Inl e
              | Inr ticker_val \<Rightarrow>
                 (case search_date_stamp zip_name of
                    None \<Rightarrow> Inl AttributeError
                  | Some stamp \<Rightarrow>
                     Inr (save_folder @ ''/'' @ ticker_val @ ''_facts-'' @ stamp @ ''.pkl'')))))"

text \<open>
  Then, after the test for an existing file, the table: one frame per unit, its
  columns under the labels of taxonomy, unit and tag, all side by side.  With the
  table (or the exception) come the calls made on the way.
\<close>

definition facts_table :: "'v company_json \<Rightarrow> (py_error + (label, 'v) frame) \<times> call list" where
  "facts_table data =
     (case entityName data of
        None \<Rightarrow> (Inl (KeyError ''entityName''), [])
      | Some _ \<Rightarrow>
         (case facts data of
            None \<Rightarrow> (Inl (KeyError ''facts''), [])
          | Some taxonomies \<Rightarrow>
             (pd_concat
                (map (\<lambda>(taxonomy_name, tag_name, unit, events).
                        with_labels (\<lambda>c. (taxonomy_name, unit, tag_name, c)) (DataFrame events))
                     (all_units taxonomies)),
              map (\<lambda>(taxonomy_name, tag_name, unit, events).
                     Pd_DataFrame taxonomy_name tag_name unit)
                  (all_units taxonomies) @ [Pd_concat])))"

text \<open>
  The \<^verbatim>\<open>try\<close> block of the worker on the member \<open>filename\<close>: \<^verbatim>\<open>json.load\<close> comes
  first, the path is computed from the loaded document, and the test for an existing
  file follows.  The result is the exception or the output directory, and the calls
  made.
\<close>

definition parse_open_json_try ::
    "constants \<Rightarrow> string \<Rightarrow> py_error + 'v company_json \<Rightarrow> string \<Rightarrow> (string \<times> string) list
     \<Rightarrow> (string \<times> string) list \<Rightarrow> string \<Rightarrow> (label, 'v) frame filesystem
     \<Rightarrow> (py_error + (label, 'v) frame filesystem) \<times> call list" where
  "parse_open_json_try C filename loaded zip_name ticker_to_cik cik_to_ticker save_folder fs =
     (case loaded of
        Inl e \<Rightarrow> (Inl e, [Json_load filename])
      | Inr data \<Rightarrow>
         (case output_file_path C data zip_name ticker_to_cik cik_to_ticker save_folder of
            Inl e \<Rightarrow> (Inl e, [Json_load filename])
          | Inr path \<Rightarrow>
             if os_path_exists fs path
             then (Inr fs, [Json_load filename, Os_path_exists path])
             else
               (case facts_table data of
                  (Inl e, calls) \<Rightarrow>
                    (Inl e, [Json_load filename, Os_path_exists path] @ calls)
                | (Inr multi_df, calls) \<Rightarrow>
                    (Inr (to_pickle path multi_df fs),
                     [Json_load filename, Os_path_exists path] @ calls @ [To_pickle path]))))"

text \<open>\<^verbatim>\<open>except Exception\<close>: the error is logged and the worker returns.\<close>

definition parse_open_json ::
    "constants \<Rightarrow> string \<Rightarrow> py_error + 'v company_json \<Rightarrow> string \<Rightarrow> (string \<times> string) list
     \<Rightarrow> (string \<times> string) list \<Rightarrow> string \<Rightarrow> (label, 'v) frame filesystem
     \<Rightarrow> (label, 'v) frame filesystem \<times> call list" where
  "parse_open_json C filename loaded zip_name ticker_to_cik cik_to_ticker save_folder fs =
     (case parse_open_json_try C filename loaded zip_name ticker_to_cik cik_to_ticker
             save_folder fs of
        (Inl e, calls) \<Rightarrow> (fs, calls)
      | (Inr fs', calls) \<Rightarrow> (fs', calls))"

text \<open>
  \<^verbatim>\<open>parse_all_facts_in_latest_zip\<close>: the worker on every member whose name ends in
  \<^verbatim>\<open>.json\<close>.  The pool's workers are taken one after the other, in the order of the
  archive; the result is the output directory they leave and the calls they made.
\<close>

definition parse_all_facts_in_latest_zip ::
    "constants \<Rightarrow> client \<Rightarrow> string \<Rightarrow> (string \<times> (py_error + 'v company_json)) list
     \<Rightarrow> (label, 'v) frame filesystem \<Rightarrow> (label, 'v) frame filesystem \<times> call list" where
  "parse_all_facts_in_latest_zip C self zip_name archive fs =
     fold (\<lambda>(filename, loaded) (fs, calls).
             (case parse_open_json C filename loaded zip_name (ticker_to_cik_mapping self)
                     (cik_to_ticker_mapping self) (facts_save_folder self) fs of
                (fs', calls') \<Rightarrow> (fs', calls @ calls')))
          (filter (\<lambda>(filename, loaded). endswith filename ''.json'') archive)
          (fs, [])"

section \<open>Values for the examples\<close>

text \<open>
  The examples need values for the parameters: the URL templates and names of the
  SEC's public interface, and a parser of dates written \<^verbatim>\<open>YYYY-MM-DD\<close>.
\<close>

definition digit_value :: "char \<Rightarrow> nat" where
  "digit_value c = (case map_of (zip ''0123456789'' [0..<10]) c of None \<Rightarrow> 0 | Some n \<Rightarrow> n)"

definition number_of :: "string \<Rightarrow> nat" where
  "number_of s = fold (\<lambda>c n. 10 * n + digit_value c) s 0"

definition example_strptime :: "string \<Rightarrow> date option" where
  "example_strptime s =
     (if length s = 10 \<and> date_stamp_here s
      then Some \<lparr>year = number_of (take 4 s), month = number_of (take 2 (drop 5 s)),
                 day = number_of (take 2 (drop 8 s))\<rparr>
      else None)"

definition example_constants :: constants where
  "example_constants =
     \<lparr>AMENDS_SUFFIX = ''/A'',
      CIK_LENGTH = 10,
      SUPPORTED_FORMS = [''10-K'', ''10-Q'', ''8-K''],
      DEFAULT_AFTER_DATE = \<lparr>year = 1994, month = 1, day = 1\<rparr>,
      DEFAULT_BEFORE_DATE = \<lparr>year = 2026, month = 11, day = 3\<rparr>,
      strptime = example_strptime,
      URL_FILING = (\<lambda>c a d. ''https://www.sec.gov/Archives/edgar/data/'' @ c @ ''/'' @ a @ ''/'' @ d),
      URL_SUBMISSIONS = (\<lambda>c. ''https://data.sec.gov/submissions/CIK'' @ c @ ''.json''),
      URL_PAGINATED_SUBMISSIONS = (\<lambda>n. ''https://data.sec.gov/submissions/'' @ n),
      URL_CIK_MAPPING = ''https://www.sec.gov/files/company_tickers_exchange.json'',
      HOST_DATA_SEC = ''data.sec.gov'',
      HOST_WWW_SEC = ''www.sec.gov'',
      ROOT_FORMS_SAVE_FOLDER_NAME = ''sec-edgar-filings'',
      FORM_FULL_SUBMISSION_FILENAME = ''full-submission.txt'',
      PRIMARY_DOC_FILENAME_STEM = ''primary-document''\<rparr>"

text \<open>
  A request for the annual reports of 2020, at most one, and a directory with one
  company.
\<close>

definition example_request :: FormsDownloadMetadata where
  "example_request =
     \<lparr>download_folder = ''.'',
      forms = [''10-K''],
      cik = ''0000320193'',
      ticker = Some ''AAPL'',
      limit = 1,
      after = \<lparr>year = 2020, month = 1, day = 1\<rparr>,
      before = \<lparr>year = 2020, month = 12, day = 31\<rparr>,
      include_amends = False,
      download_details = False\<rparr>"

definition example_client :: client where
  "example_client =
     \<lparr>parent_download_folder = ''.'',
      facts_save_folder = ''./sec-edgar-facts'',
      ticker_to_cik_mapping = [(''AAPL'', ''0000320193'')],
      cik_to_ticker_mapping = [(''0000320193'', ''AAPL'')]\<rparr>"

text \<open>A session that answers every request with an empty body and status 200.\<close>

definition example_session :: "'j session" where
  "example_session r = Inr \<lparr>status_code = 200, url = fst r, json = Inl JSONDecodeError, content = []\<rparr>"

text \<open>
  Two fact documents with one unit of one event: the first event has every core
  column but \<^verbatim>\<open>start\<close>, the second has neither \<^verbatim>\<open>start\<close> nor \<^verbatim>\<open>accn\<close>.
\<close>

definition example_taxonomies :: "string taxonomies" where
  "example_taxonomies =
     [(''us-gaap'', [(''Assets'', [(''USD'',
        [[(''end'', ''2020-09-26''), (''val'', ''323888000000''),
          (''accn'', ''0000320193-20-000096''), (''fy'', ''2020''), (''fp'', ''FY''),
          (''form'', ''10-K''), (''filed'', ''2020-10-30''), (''frame'', ''CY2020Q3I'')]])])])]"

definition example_taxonomies_no_accn :: "string taxonomies" where
  "example_taxonomies_no_accn =
     [(''us-gaap'', [(''Assets'', [(''USD'',
        [[(''end'', ''2020-09-26''), (''val'', ''323888000000''),
          (''fy'', ''2020''), (''fp'', ''FY''),
          (''form'', ''10-K''), (''filed'', ''2020-10-30''), (''frame'', ''CY2020Q3I'')]])])])]"

definition example_facts :: "string taxonomies \<Rightarrow> string company_json" where
  "example_facts taxonomies =
     \<lparr>cik_text = Some ''320193'', entityName = Some ''Apple Inc.'', facts = Some taxonomies\<rparr>"

text \<open>An archive with the facts of one company, and its name.\<close>

definition example_archive :: "(string \<times> (py_error + string company_json)) list" where
  "example_archive =
     [(''CIK0000320193.json'', Inr (example_facts example_taxonomies)),
      (''README.txt'', Inl JSONDecodeError)]"

definition example_zip_name :: string where
  "example_zip_name = ''all_companies_facts-2023-09-01.zip''"

definition empty_directory :: "(label, string) frame filesystem" where
  "empty_directory = \<lparr>files = [], writes = []\<rparr>"

text \<open>
  A filing history in two pages: the recent batch with two annual reports of 2020 and
  a current report between them, and one continuation page with an older annual
  report.
\<close>

definition example_recent :: "string submissions" where
  "example_recent =
     [(''accessionNumber'',
         [''0000320193-20-000096'', ''0000320193-20-000052'', ''0000320193-20-000010'']),
      (''form'', [''10-K'', ''8-K'', ''10-K'']),
      (''primaryDocument'', [''aapl-20200926.htm'', ''a8-k20200430.htm'', ''a10-k20200301.htm'']),
      (''filingDate'', [''2020-11-01'', ''2020-04-30'', ''2020-03-01''])]"

definition example_continuation :: "(string \<times> string submissions) list" where
  "example_continuation =
     [(''CIK0000320193-submissions-001.json'',
       [(''accessionNumber'', [''0000320193-19-000119'']),
        (''form'', [''10-K'']),
        (''primaryDocument'', [''a10-k20199282019.htm'']),
        (''filingDate'', [''2019-10-31''])])]"

definition example_history_session :: "submissions_json session" where
  "example_history_session r =
     (if fst r = ''https://data.sec.gov/submissions/CIK0000320193.json''
      then Inr \<lparr>status_code = 200, url = fst r,
                 json = Inr (FilingsJSON example_recent (map fst example_continuation)),
                 content = []\<rparr>
      else if fst r = ''https://data.sec.gov/submissions/CIK0000320193-submissions-001.json''
      then Inr \<lparr>status_code = 200, url = fst r,
                 json = Inr (PageJSON (snd (hd example_continuation))),
                 content = []\<rparr>
      else Inr \<lparr>status_code = 404, url = fst r, json = Inl JSONDecodeError, content = []\<rparr>)"

section \<open>Properties of the merge\<close>

lemma chain_from_iterable_ok:
  "\<forall>d\<in>set ds. k \<in> set (keys d) \<Longrightarrow>
     chain_from_iterable k ds = Inr (concat (map (column k) ds))"
proof (induction ds)
  case Nil
  then show ?case by simp
next
  case (Cons d ds)
  from Cons.prems have "k \<in> fst ` set d" by (simp add: keys_def)
  then obtain v where v: "map_of d k = Some v"
    by (metis domD dom_map_of_conv_image_fst)
  from Cons have "chain_from_iterable k ds = Inr (concat (map (column k) ds))" by simp
  moreover from v have "column k d = v" by (simp add: column_def)
  ultimately show ?case using v by (simp add: getitem_def)
qed

lemma chain_from_iterable_fails:
  "\<exists>d\<in>set ds. k \<notin> set (keys d) \<Longrightarrow> chain_from_iterable k ds = Inl (KeyError k)"
proof (induction ds)
  case Nil
  then show ?case by simp
next
  case (Cons d ds)
  show ?case
  proof (cases "map_of d k")
    case None
    then show ?thesis by (simp add: getitem_def)
  next
    case (Some v)
    then have "k \<in> set (keys d)"
      by (metis domI dom_map_of_conv_image_fst keys_def set_map)
    with Cons.prems have "\<exists>d\<in>set ds. k \<notin> set (keys d)" by auto
    with Cons.IH have "chain_from_iterable k ds = Inl (KeyError k)" by simp
    with Some show ?thesis by (simp add: getitem_def)
  qed
qed

lemma chain_from_iterable_error:
  "chain_from_iterable k ds = Inl e \<Longrightarrow> e = KeyError k \<and> (\<exists>d\<in>set ds. k \<notin> set (keys d))"
proof -
  assume a: "chain_from_iterable k ds = Inl e"
  have "\<not> (\<forall>d\<in>set ds. k \<in> set (keys d))"
    using a chain_from_iterable_ok [of ds k] by auto
  then have ex: "\<exists>d\<in>set ds. k \<notin> set (keys d)" by blast
  with a chain_from_iterable_fails [of ds k] show ?thesis by simp
qed

lemma merge_keys_ok:
  "\<forall>k\<in>set ks. \<forall>d\<in>set ds. k \<in> set (keys d) \<Longrightarrow>
     \<exists>m. merge_keys ks ds merged = Inr m \<and>
         set (keys m) = set (keys merged) \<union> set ks \<and>
         (\<forall>k. map_of m k =
            (if k \<in> set ks then Some (concat (map (column k) ds)) else map_of merged k))"
proof (induction ks arbitrary: merged)
  case Nil
  then show ?case by simp
next
  case (Cons k ks)
  from Cons.prems have c: "chain_from_iterable k ds = Inr (concat (map (column k) ds))"
    by (simp add: chain_from_iterable_ok)
  from Cons.prems have "\<forall>k\<in>set ks. \<forall>d\<in>set ds. k \<in> set (keys d)" by simp
  from Cons.IH [OF this, of "AList.update k (concat (map (column k) ds)) merged"]
  obtain m where m: "merge_keys ks ds (AList.update k (concat (map (column k) ds)) merged) = Inr m"
    and km: "set (keys m) = set (keys (AList.update k (concat (map (column k) ds)) merged)) \<union> set ks"
    and vm: "\<forall>k'. map_of m k' =
       (if k' \<in> set ks then Some (concat (map (column k') ds))
        else map_of (AList.update k (concat (map (column k) ds)) merged) k')"
    by blast
  have "set (keys m) = set (keys merged) \<union> set (k # ks)"
    using km by (auto simp: keys_def dom_update)
  moreover have "\<forall>k'. map_of m k' =
       (if k' \<in> set (k # ks) then Some (concat (map (column k') ds)) else map_of merged k')"
    using vm by (simp add: update_conv')
  ultimately show ?case using c m by simp
qed

lemma merge_keys_error:
  "merge_keys ks ds merged = Inl e \<Longrightarrow>
     \<exists>k\<in>set ks. e = KeyError k \<and> (\<exists>d\<in>set ds. k \<notin> set (keys d))"
proof (induction ks arbitrary: merged)
  case Nil
  then show ?case by simp
next
  case (Cons k ks)
  show ?case
  proof (cases "chain_from_iterable k ds")
    case (Inl e')
    with Cons.prems have "e' = e" by simp
    with Inl chain_from_iterable_error [of k ds e] show ?thesis by simp
  next
    case (Inr v)
    with Cons.prems have "merge_keys ks ds (AList.update k v merged) = Inl e" by simp
    from Cons.IH [OF this] show ?thesis by auto
  qed
qed

lemma merge_keys_total:
  "(case merge_keys ks ds merged of
      Inr m \<Rightarrow>
        set (keys m) = set (keys merged) \<union> set ks \<and>
        (\<forall>d\<in>set ds. set ks \<subseteq> set (keys d)) \<and>
        (\<forall>k\<in>set ks. map_of m k = Some (concat (map (column k) ds)))
    | Inl e \<Rightarrow> \<exists>k\<in>set ks. e = KeyError k \<and> (\<exists>d\<in>set ds. k \<notin> set (keys d)))"
proof (cases "merge_keys ks ds merged")
  case (Inl e)
  with merge_keys_error [of ks ds merged e] show ?thesis by simp
next
  case (Inr m)
  have all: "\<forall>k\<in>set ks. \<forall>d\<in>set ds. k \<in> set (keys d)"
  proof (rule ccontr)
    assume "\<not> ?thesis"
    then obtain k d where "k \<in> set ks" "d \<in> set ds" "k \<notin> set (keys d)" by blast
    have "\<And>merged. \<exists>e. merge_keys ks ds merged = Inl e"
      using \<open>k \<in> set ks\<close>
    proof (induction ks)
      case Nil
      then show ?case by simp
    next
      case (Cons k' ks')
      show ?case
      proof (cases "chain_from_iterable k' ds")
        case (Inl e)
        then show ?thesis by simp
      next
        case (Inr v)
        have "k' \<noteq> k"
        proof
          assume "k' = k"
          with chain_from_iterable_fails [of ds k] \<open>d \<in> set ds\<close> \<open>k \<notin> set (keys d)\<close> Inr
          show False by auto
        qed
        with Cons.prems have "k \<in> set ks'" by simp
        from Cons.IH [OF this] Inr show ?thesis by simp
      qed
    qed
    with Inr show False by (metis Inl_Inr_False)
  qed
  from merge_keys_ok [OF all, of merged] Inr
  have "set (keys m) = set (keys merged) \<union> set ks"
    and "\<forall>k. map_of m k =
       (if k \<in> set ks then Some (concat (map (column k) ds)) else map_of merged k)"
    by auto
  with all Inr show ?thesis by auto
qed

text \<open>
  C7.  When the recent batch and the continuation pages have the same keys,
  \<open>merge_submission_dicts\<close> applied to the recent batch followed by the pages, in the
  order listed, succeeds; the merged dictionary has these keys, and under every key
  it holds the lists of the recent batch and of the pages, concatenated in that
  order.
\<close>

theorem merge_submission_dicts_concatenates:
  assumes "\<forall>d\<in>set pages. set (keys d) = set (keys recent)"
  shows "\<exists>merged. merge_submission_dicts (recent # pages) = Inr merged \<and>
           set (keys merged) = set (keys recent) \<and>
           (\<forall>k\<in>set (keys recent).
              map_of merged k = Some (concat (map (column k) (recent # pages))))"
proof -
  from assms have "\<forall>k\<in>set (keys recent). \<forall>d\<in>set (recent # pages). k \<in> set (keys d)"
    by auto
  from merge_keys_ok [OF this, of "[]"]
  show ?thesis by (auto simp: merge_submission_dicts_def keys_def)
qed

theorem merge_submission_dicts_concatenates_witness:
  "set (keys [(''form'', [''8-K'']), (''accessionNumber'', [''a2''])]) =
     set (keys [(''accessionNumber'', [''a1'']), (''form'', [''10-K''])]) \<and>
   (\<exists>merged.
      merge_submission_dicts
        [[(''accessionNumber'', [''a1'']), (''form'', [''10-K''])],
         [(''form'', [''8-K'']), (''accessionNumber'', [''a2''])]] = Inr merged \<and>
      map_of merged ''accessionNumber'' = Some [''a1'', ''a2''] \<and>
      map_of merged ''form'' = Some [''10-K'', ''8-K''])"
  using merge_submission_dicts_concatenates
    [of "[[(''form'', [''8-K'']), (''accessionNumber'', [''a2''])]]"
        "[(''accessionNumber'', [''a1'']), (''form'', [''10-K''])]"]
  by (auto simp: keys_def column_def)

text \<open>
  C10.  The merge of a non-empty list of page dictionaries either succeeds, and then
  the merged dictionary has exactly the keys of the first dictionary (so a key that
  only a later page has is not in it) and every later page has all these keys; or it
  fails with the \<open>KeyError\<close> of a key of the first dictionary that some later page
  lacks.  (On the empty list \<^verbatim>\<open>to_merge[0]\<close> raises \<open>IndexError\<close>.)
\<close>

theorem merge_submission_dicts_keys_of_first:
  "(case merge_submission_dicts (d0 # ds) of
      Inr merged \<Rightarrow>
        set (keys merged) = set (keys d0) \<and>
        (\<forall>d\<in>set ds. set (keys d0) \<subseteq> set (keys d))
    | Inl e \<Rightarrow>
        \<exists>k\<in>set (keys d0). e = KeyError k \<and> (\<exists>d\<in>set ds. k \<notin> set (keys d)))"
proof -
  have "merge_submission_dicts (d0 # ds) = merge_keys (keys d0) (d0 # ds) []"
    by (simp add: merge_submission_dicts_def)
  with merge_keys_total [of "keys d0" "d0 # ds" "[]"]
  show ?thesis by (auto simp: keys_def split: sum.splits)
qed

theorem merge_submission_dicts_keys_of_first_witness:
  "merge_submission_dicts
     [[(''form'', [''10-K''])], [(''size'', [''7'']), (''form'', [''8-K''])]] =
     Inr [(''form'', [''10-K'', ''8-K''])] \<and>
   ''size'' \<notin> set (keys [(''form'', [''10-K'', ''8-K''])]) \<and>
   merge_submission_dicts
     [[(''form'', [''10-K'']), (''size'', [''7''])], [(''form'', [''8-K''])]] =
     Inl (KeyError ''size'')"
  using merge_submission_dicts_keys_of_first
      [of "[(''form'', [''10-K''])]" "[[(''size'', [''7'']), (''form'', [''8-K''])]]"]
    merge_submission_dicts_keys_of_first
      [of "[(''form'', [''10-K'']), (''size'', [''7''])]" "[[(''form'', [''8-K''])]]"]
  by (simp add: merge_submission_dicts_def keys_def getitem_def)

section \<open>The row filter and the filing descriptor\<close>

lemma example_strptime_2020_03_01:
  "example_strptime ''2020-03-01'' = Some \<lparr>year = 2020, month = 3, day = 1\<rparr>"
  by code_simp

lemma example_strptime_2020_01_01:
  "example_strptime ''2020-01-01'' = Some \<lparr>year = 2020, month = 1, day = 1\<rparr>"
  by code_simp

lemma example_strptime_2020_12_31:
  "example_strptime ''2020-12-31'' = Some \<lparr>year = 2020, month = 12, day = 31\<rparr>"
  by code_simp

lemma example_strptime_2020_11_01:
  "example_strptime ''2020-11-01'' = Some \<lparr>year = 2020, month = 11, day = 1\<rparr>"
  by code_simp

lemma py_replace_dash: "py_replace ''-'' '''' s = filter (\<lambda>c. c \<noteq> CHR ''-'') s"
proof (induction s)
  case Nil
  then show ?case by (simp add: py_replace.simps)
next
  case (Cons c s)
  show ?case
  proof (cases "c = CHR ''-''")
    case True
    have "py_replace ''-'' '''' (c # s) = py_replace ''-'' '''' s"
      using True by (subst py_replace.simps) simp
    with Cons True show ?thesis by simp
  next
    case False
    have "py_replace ''-'' '''' (c # s) = c # py_replace ''-'' '''' s"
      using False by (subst py_replace.simps) simp
    with Cons False show ?thesis by simp
  qed
qed

lemma get_to_download_fields:
  "form (get_to_download C c a f d) = f"
  "accession_number (get_to_download C c a f d) = a"
  "raw_filing_uri (get_to_download C c a f d) =
     URL_FILING C (strip_chars ''0'' c) (filter (\<lambda>x. x \<noteq> CHR ''-'') a) (a @ ''.txt'')"
  "primary_doc_uri (get_to_download C c a f d) =
     URL_FILING C (strip_chars ''0'' c) (filter (\<lambda>x. x \<noteq> CHR ''-'') a) d"
  "details_doc_suffix (get_to_download C c a f d) = py_replace ''htm'' ''html'' (path_suffix d)"
  by (simp_all add: get_to_download_def Let_def py_replace_dash)

text \<open>
  C8.  What \<open>get_to_download\<close> makes of the identifier \<^verbatim>\<open>0000001800\<close> and of the
  document \<^verbatim>\<open>abt-20191231.html\<close>: \<^verbatim>\<open>strip("0")\<close> takes the zeros off both ends, so
  the identifier in both URIs is \<^verbatim>\<open>18\<close>, and \<^verbatim>\<open>replace("htm", "html")\<close> turns the
  suffix \<^verbatim>\<open>.html\<close> into \<^verbatim>\<open>.htmll\<close>.  The dashes of the accession number are removed.
\<close>

theorem get_to_download_cik_1800_html:
  "get_to_download C ''0000001800'' ''0000001800-20-000010'' ''10-K'' ''abt-20191231.html'' =
     \<lparr>form = ''10-K'',
      raw_filing_uri = URL_FILING C ''18'' ''000000180020000010'' ''0000001800-20-000010.txt'',
      primary_doc_uri = URL_FILING C ''18'' ''000000180020000010'' ''abt-20191231.html'',
      accession_number = ''0000001800-20-000010'',
      details_doc_suffix = ''.htmll''\<rparr>"
  by (simp add: get_to_download_def strip_chars_def path_suffix_def path_name_def Let_def
      py_replace.simps)

section \<open>The directory of companies\<close>

lemma get_ticker_cik_name_mapping_third_is_second:
  "get_ticker_cik_name_mapping C S log = (Inr (ticker_to_cik, cik_to_ticker, cik_to_name), log')
   \<Longrightarrow> cik_to_name = cik_to_ticker"
  by (auto simp: get_ticker_cik_name_mapping_def Let_def split: prod.splits sum.splits)

text \<open>
  C9.  The resolver load on a directory with the columns \<^verbatim>\<open>cik\<close>, \<^verbatim>\<open>name\<close>,
  \<^verbatim>\<open>ticker\<close>, \<^verbatim>\<open>exchange\<close> and the one row of Apple Inc.: the third mapping takes the
  identifier to the ticker symbol \<^verbatim>\<open>AAPL\<close>, not to the name of the company.
\<close>

theorem get_ticker_cik_name_mapping_apple:
  "get_ticker_cik_name_mapping C
     (\<lambda>r. Inr \<lparr>status_code = 200, url = fst r,
               json = Inr \<lparr>dir_fields = [''cik'', ''name'', ''ticker'', ''exchange''],
                           dir_data = [[''320193'', ''Apple Inc.'', ''AAPL'', ''Nasdaq'']]\<rparr>,
               content = []\<rparr>)
     [] =
   (Inr ([(''AAPL'', zfill (CIK_LENGTH C) ''320193'')],
         [(zfill (CIK_LENGTH C) ''320193'', ''AAPL'')],
         [(zfill (CIK_LENGTH C) ''320193'', ''AAPL'')]),
    [(URL_CIK_MAPPING C, HOST_WWW_SEC C)])"
  by (simp add: get_ticker_cik_name_mapping_def rate_limited_get_def raise_for_status_def
      list_get_def inverted_def upper_def upper_char_def Let_def)

section \<open>The transport's errors\<close>

text \<open>
  C3, as stated, fails: an exception that \<^verbatim>\<open>session.get\<close> raises, such as the
  \<open>RetryError\<close> of exhausted retries, reaches the caller as it is.
\<close>

theorem rate_limited_get_bare_exception:
  "\<not> (\<forall>(S :: unit session) u host log e.
        fst (rate_limited_get example_constants S u host log) = Inl e \<longrightarrow>
        (\<exists>origin status_arg url_arg. e = EdgarAPIError origin status_arg url_arg))"
proof
  assume a: "\<forall>(S :: unit session) u host log e.
        fst (rate_limited_get example_constants S u host log) = Inl e \<longrightarrow>
        (\<exists>origin status_arg url_arg. e = EdgarAPIError origin status_arg url_arg)"
  have "fst (rate_limited_get example_constants ((\<lambda>r. Inl RetryError) :: unit session)
          ''https://data.sec.gov/submissions/CIK0000320193.json'' None []) =
        Inl (RequestException RetryError)"
    by (simp add: rate_limited_get_def)
  with a show False by blast
qed

text \<open>
  C3, amended.  The outcome of a request follows what \<^verbatim>\<open>session.get\<close> does: an
  exception it raises is passed on as raised; a response with a status code from 400
  to 599 gives the one structured error, which carries the \<open>HTTPError\<close>, the status
  code and the URL of the response; any other response is returned.  The request is
  recorded in every case.
\<close>

theorem rate_limited_get_outcome:
  "rate_limited_get C S u host log =
     ((case S (u, case host of None \<Rightarrow> HOST_DATA_SEC C | Some h \<Rightarrow> h) of
         Inl e \<Rightarrow> Inl (RequestException e)
       | Inr resp \<Rightarrow>
          if 400 \<le> status_code resp \<and> status_code resp < 600
          then Inl (EdgarAPIError (HTTPError (status_code resp) (url resp))
                      (Some (status_code resp)) (Some (url resp)))
          else Inr resp),
      log @ [(u, case host of None \<Rightarrow> HOST_DATA_SEC C | Some h \<Rightarrow> h)])"
  by (simp add: rate_limited_get_def raise_for_status_def Let_def split: sum.splits)

section \<open>Validation before the download\<close>

lemma validate_and_return_cik_error:
  "validate_and_return_cik C t m = Inl e \<Longrightarrow> e = ValueError"
  by (auto simp: validate_and_return_cik_def Let_def split: if_splits option.splits)

lemma get_valid_after_date_result:
  "get_valid_after_date C after_arg d0 =
     (case (case after_arg of None \<Rightarrow> Some d0 | Some s \<Rightarrow> strptime C s) of
        None \<Rightarrow> Inl ValueError
      | Some a \<Rightarrow> Inr a)"
  by (simp add: get_valid_after_date_def validate_and_parse_date_def max_date_def
      split: option.splits)

text \<open>
  C5.  When the limit is below 1, or the after date is later than the before date
  (each the parsed argument, or the default when the argument is absent), or a
  requested form type is not a supported form, \<open>download_forms_by_company\<close> raises
  \<open>ValueError\<close> and leaves the world as it was: no request has been sent and no file
  written.
\<close>

theorem download_forms_by_company_rejects:
  assumes "(\<exists>l. limit_arg = Some l \<and> l < 1) \<or>
           (\<exists>a b. (case after_arg of None \<Rightarrow> Some (DEFAULT_AFTER_DATE C) | Some s \<Rightarrow> strptime C s) = Some a \<and>
                  (case before_arg of None \<Rightarrow> Some (DEFAULT_BEFORE_DATE C) | Some s \<Rightarrow> strptime C s) = Some b \<and>
                  date_lt b a) \<or>
           (\<exists>f\<in>set form_types. f \<notin> set (SUPPORTED_FORMS C))"
  shows "download_forms_by_company C S self ticker_or_cik form_types limit_arg after_arg
           before_arg include_amends_arg download_details_arg w = (Inl ValueError, w)"
proof (cases "validate_and_return_cik C ticker_or_cik (ticker_to_cik_mapping self)")
  case (Inl e)
  then have "e = ValueError" by (rule validate_and_return_cik_error)
  with Inl show ?thesis by (simp add: download_forms_by_company_def)
next
  case (Inr cik_val)
  let ?after = "case after_arg of None \<Rightarrow> Some (DEFAULT_AFTER_DATE C) | Some s \<Rightarrow> strptime C s"
  let ?before = "case before_arg of None \<Rightarrow> Some (DEFAULT_BEFORE_DATE C) | Some s \<Rightarrow> strptime C s"
  have before: "(case before_arg of None \<Rightarrow> Inr (DEFAULT_BEFORE_DATE C)
                 | Some b \<Rightarrow> validate_and_parse_date C b) =
                (case ?before of None \<Rightarrow> Inl ValueError | Some b \<Rightarrow> Inr b)"
    by (simp add: validate_and_parse_date_def split: option.splits)
  have filt: "(filter (\<lambda>f. f \<notin> set (SUPPORTED_FORMS C)) form_types \<noteq> []) =
              (\<exists>f\<in>set form_types. f \<notin> set (SUPPORTED_FORMS C))"
    by (auto simp: filter_empty_conv)
  show ?thesis
  proof (cases "\<exists>l. limit_arg = Some l \<and> l < 1")
    case True
    with Inr show ?thesis by (auto simp: download_forms_by_company_def Let_def)
  next
    case nolimit: False
    show ?thesis
    proof (cases ?after)
      case None
      with Inr show ?thesis
        by (simp add: download_forms_by_company_def Let_def get_valid_after_date_result)
    next
      case a: (Some a)
      show ?thesis
      proof (cases ?before)
        case None
        with Inr a show ?thesis
          by (simp add: download_forms_by_company_def Let_def get_valid_after_date_result before)
      next
        case b: (Some b)
        show ?thesis
        proof (cases "date_lt b a")
          case True
          with Inr a b show ?thesis
            by (simp add: download_forms_by_company_def Let_def get_valid_after_date_result
                before)
        next
          case False
          with assms nolimit a b
          have "\<exists>f\<in>set form_types. f \<notin> set (SUPPORTED_FORMS C)" by auto
          with filt have "filter (\<lambda>f. f \<notin> set (SUPPORTED_FORMS C)) form_types \<noteq> []"
            by simp
          with Inr a b show ?thesis
            by (simp add: download_forms_by_company_def Let_def get_valid_after_date_result
                before)
        qed
      qed
    qed
  qed
qed

theorem download_forms_by_company_rejects_witness:
  "download_forms_by_company example_constants example_session example_client ''AAPL''
     [''10-K''] (Some 0) None None False True \<lparr>requests = [], written = []\<rparr> =
     (Inl ValueError, \<lparr>requests = [], written = []\<rparr>) \<and>
   strptime example_constants ''2020-12-31'' = Some \<lparr>year = 2020, month = 12, day = 31\<rparr> \<and>
   strptime example_constants ''2020-01-01'' = Some \<lparr>year = 2020, month = 1, day = 1\<rparr> \<and>
   date_lt \<lparr>year = 2020, month = 1, day = 1\<rparr> \<lparr>year = 2020, month = 12, day = 31\<rparr> \<and>
   download_forms_by_company example_constants example_session example_client ''AAPL''
     [''10-K''] None (Some ''2020-12-31'') (Some ''2020-01-01'') False True
     \<lparr>requests = [], written = []\<rparr> =
     (Inl ValueError, \<lparr>requests = [], written = []\<rparr>) \<and>
   ''NT 10-K'' \<notin> set (SUPPORTED_FORMS example_constants) \<and>
   download_forms_by_company example_constants example_session example_client ''AAPL''
     [''10-K'', ''NT 10-K''] None None None False True \<lparr>requests = [], written = []\<rparr> =
     (Inl ValueError, \<lparr>requests = [], written = []\<rparr>)"
proof -
  have h2: "strptime example_constants ''2020-12-31'' = Some \<lparr>year = 2020, month = 12, day = 31\<rparr>"
    by (simp add: example_constants_def example_strptime_2020_12_31)
  have h1: "strptime example_constants ''2020-01-01'' = Some \<lparr>year = 2020, month = 1, day = 1\<rparr>"
    by (simp add: example_constants_def example_strptime_2020_01_01)
  have lt: "date_lt \<lparr>year = 2020, month = 1, day = 1\<rparr> \<lparr>year = 2020, month = 12, day = 31\<rparr>"
    by (simp add: date_lt_def)
  have nt: "''NT 10-K'' \<notin> set (SUPPORTED_FORMS example_constants)"
    by (simp add: example_constants_def)
  have "download_forms_by_company example_constants example_session example_client ''AAPL''
     [''10-K''] (Some 0) None None False True \<lparr>requests = [], written = []\<rparr> =
     (Inl ValueError, \<lparr>requests = [], written = []\<rparr>)"
    by (rule download_forms_by_company_rejects) simp
  moreover
  have "download_forms_by_company example_constants example_session example_client ''AAPL''
     [''10-K''] None (Some ''2020-12-31'') (Some ''2020-01-01'') False True
     \<lparr>requests = [], written = []\<rparr> =
     (Inl ValueError, \<lparr>requests = [], written = []\<rparr>)"
    by (rule download_forms_by_company_rejects) (simp add: h1 h2 date_lt_def)
  moreover
  have "download_forms_by_company example_constants example_session example_client ''AAPL''
     [''10-K'', ''NT 10-K''] None None None False True \<lparr>requests = [], written = []\<rparr> =
     (Inl ValueError, \<lparr>requests = [], written = []\<rparr>)"
    by (rule download_forms_by_company_rejects) (simp add: nt)
  ultimately show ?thesis using h1 h2 lt nt by simp
qed

section \<open>The column check of the fact tables\<close>

lemma update_fresh: "k \<notin> fst ` set al \<Longrightarrow> AList.update k v al = al @ [(k, v)]"
  by (induction al) auto

lemma set_nan_nrows: "nrows (fold set_nan cs df) = nrows df"
  by (induction cs arbitrary: df) (simp_all add: set_nan_def)

lemma fold_set_nan_columns:
  "distinct cs \<Longrightarrow> set cs \<inter> fst ` set (columns df) = {} \<Longrightarrow>
     columns (fold set_nan cs df) =
       columns df @ map (\<lambda>c. (c, replicate (nrows df) None)) cs"
proof (induction cs arbitrary: df)
  case Nil
  then show ?case by simp
next
  case (Cons c cs)
  from Cons.prems have fresh: "c \<notin> fst ` set (columns df)" by auto
  then have cols: "columns (set_nan c df) = columns df @ [(c, replicate (nrows df) None)]"
    by (simp add: set_nan_def update_fresh)
  have n: "nrows (set_nan c df) = nrows df" by (simp add: set_nan_def)
  from Cons.prems cols have "set cs \<inter> fst ` set (columns (set_nan c df)) = {}" by auto
  with Cons.IH [of "set_nan c df"] Cons.prems cols n show ?case by simp
qed

lemma distinct_ALLOWED_DATA_COLUMNS: "distinct ALLOWED_DATA_COLUMNS"
  by (simp add: ALLOWED_DATA_COLUMNS_def)

lemma missing_columns_props:
  "distinct (missing_columns df)"
  "set (missing_columns df) \<inter> fst ` set (columns df) = {}"
  "set (missing_columns df) = set ALLOWED_DATA_COLUMNS - set (keys (columns df))"
proof -
  show "distinct (missing_columns df)"
    unfolding missing_columns_def by (rule distinct_filter) (rule distinct_ALLOWED_DATA_COLUMNS)
  show "set (missing_columns df) \<inter> fst ` set (columns df) = {}"
    by (auto simp: missing_columns_def keys_def)
  show "set (missing_columns df) = set ALLOWED_DATA_COLUMNS - set (keys (columns df))"
    by (auto simp: missing_columns_def)
qed

text \<open>
  The columns of \<open>DataFrame events\<close> are the keys that occur in the events, so a core
  column is missing from the table exactly when no event of the unit has it.
\<close>

lemma DataFrame_keys: "set (keys (columns (DataFrame events))) = (\<Union>e\<in>set events. set (keys e))"
  by (auto simp: DataFrame_def keys_def first_seen_def)

lemma missing_columns_DataFrame:
  "set (missing_columns (DataFrame events)) =
     {c \<in> set ALLOWED_DATA_COLUMNS. \<forall>e\<in>set events. c \<notin> set (keys e)}"
  by (auto simp: missing_columns_props(3) DataFrame_keys)

lemma check_columns_cases:
  "check_columns df =
     (if set (missing_columns df) \<subseteq> {''start'', ''frame''}
      then Inr (fold set_nan (missing_columns df) df)
      else Inl SystemExit)"
proof (cases "set ALLOWED_DATA_COLUMNS \<subseteq> set (keys (columns df))")
  case True
  then have "missing_columns df = []"
    by (auto simp: missing_columns_def filter_empty_conv)
  with True show ?thesis by (simp add: check_columns_def)
next
  case False
  then show ?thesis by (simp add: check_columns_def)
qed

text \<open>The frame that the loop appends for a unit whose columns pass the check.\<close>

lemma checked_frame_columns:
  "columns (with_labels f (fold set_nan (missing_columns df) df)) =
     map (\<lambda>(c, cells). (f c, cells)) (columns df) @
     map (\<lambda>c. (f c, replicate (nrows df) None)) (missing_columns df)"
  by (simp add: with_labels_def fold_set_nan_columns missing_columns_props(1,2))

lemma checked_frame_nrows:
  "nrows (with_labels f (fold set_nan (missing_columns df) df)) = nrows df"
  by (simp add: with_labels_def set_nan_nrows)

lemma facts_loop_result:
  "facts_loop units dataframes =
     (if \<exists>(t, g, u, events)\<in>set units.
           \<not> set (missing_columns (DataFrame events)) \<subseteq> {''start'', ''frame''}
      then Inl SystemExit
      else Inr (dataframes @
             map (\<lambda>(t, g, u, events).
                    with_labels (\<lambda>c. (t, g, u, c))
                      (fold set_nan (missing_columns (DataFrame events)) (DataFrame events)))
                 units))"
proof (induction units arbitrary: dataframes)
  case Nil
  then show ?case by simp
next
  case (Cons x units)
  obtain t g u events where x: "x = (t, g, u, events)" by (cases x) auto
  show ?case
  proof (cases "set (missing_columns (DataFrame events)) \<subseteq> {''start'', ''frame''}")
    case True
    with x Cons.IH show ?thesis by (simp add: check_columns_cases)
  next
    case False
    with x show ?thesis by (simp add: check_columns_cases)
  qed
qed

lemma fold_max_start: "(b::nat) \<le> fold max ys b"
proof (induction ys arbitrary: b)
  case Nil
  then show ?case by simp
next
  case (Cons z zs)
  have "max z b \<le> fold max zs (max z b)" by (rule Cons.IH)
  then show ?case by simp
qed

lemma fold_max_ge: "(x::nat) \<in> set xs \<Longrightarrow> x \<le> fold max xs a"
proof (induction xs arbitrary: a)
  case Nil
  then show ?case by simp
next
  case (Cons y ys)
  show ?case
  proof (cases "x = y")
    case True
    have "max y a \<le> fold max ys (max y a)" by (rule fold_max_start)
    with True show ?thesis by simp
  next
    case False
    with Cons.prems have "x \<in> set ys" by simp
    from Cons.IH [OF this] show ?thesis by simp
  qed
qed

lemma pd_concat_column:
  assumes "pd_concat dataframes = Inr table" "df \<in> set dataframes"
    "(k, cells) \<in> set (columns df)"
  shows "(k, cells @ replicate (nrows table - length cells) None) \<in> set (columns table)"
    and "nrows df \<le> nrows table"
proof -
  define n where "n = fold max (map nrows dataframes) 0"
  from assms(1,2) have t: "table =
      \<lparr>nrows = n,
       columns = concat (map (\<lambda>df. map (\<lambda>(c, cells).
            (c, cells @ replicate (n - length cells) None)) (columns df)) dataframes)\<rparr>"
    by (auto simp: pd_concat_def Let_def n_def split: if_splits)
  from assms(2) have "nrows df \<in> set (map nrows dataframes)" by simp
  then have "nrows df \<le> n" unfolding n_def by (rule fold_max_ge)
  with t show "nrows df \<le> nrows table" by simp
  have nt: "nrows table = n" using t by simp
  have "(k, cells @ replicate (n - length cells) None) \<in>
        set (concat (map (\<lambda>df. map (\<lambda>(c, cells).
            (c, cells @ replicate (n - length cells) None)) (columns df)) dataframes))"
    using assms(2,3) by force
  then have "(k, cells @ replicate (n - length cells) None) \<in> set (columns table)"
    by (subst t) simp
  with nt show "(k, cells @ replicate (nrows table - length cells) None) \<in> set (columns table)"
    by simp
qed

lemma parse_facts_json_result:
  assumes "entityName doc = Some name" "facts doc = Some taxonomies"
  shows "parse_facts_json doc =
     (if \<exists>(t, g, u, events)\<in>set (all_units taxonomies).
           \<not> set (missing_columns (DataFrame events)) \<subseteq> {''start'', ''frame''}
      then Inl SystemExit
      else pd_concat
             (map (\<lambda>(t, g, u, events).
                     with_labels (\<lambda>c. (t, g, u, c))
                       (fold set_nan (missing_columns (DataFrame events)) (DataFrame events)))
                  (all_units taxonomies)))"
  using assms
  by (simp add: parse_facts_json_def facts_loop_result sort_index_def split: sum.splits)

text \<open>
  C2, as stated, fails: a unit with two events, the second without \<^verbatim>\<open>val\<close>, is
  normalized without error, because the check is on the columns of the unit's table
  and the first event has the column.
\<close>

theorem parse_facts_json_row_without_val:
  "''val'' \<notin> set (keys [(''end'', ''2020-12-26''), (''accn'', ''0000320193-21-000010''),
                          (''fy'', ''2021''), (''fp'', ''Q1''), (''form'', ''10-Q''),
                          (''filed'', ''2021-01-28'')]) \<and>
   \<not> isl (parse_facts_json
      \<lparr>cik_text = Some ''320193'', entityName = Some ''Apple Inc.'',
       facts = Some [(''us-gaap'', [(''Assets'', [(''USD'',
         [[(''end'', ''2020-09-26''), (''val'', ''323888000000''),
           (''accn'', ''0000320193-20-000096''), (''fy'', ''2020''), (''fp'', ''FY''),
           (''form'', ''10-K''), (''filed'', ''2020-10-30''), (''frame'', ''CY2020Q3I'')],
          [(''end'', ''2020-12-26''), (''accn'', ''0000320193-21-000010''),
           (''fy'', ''2021''), (''fp'', ''Q1''), (''form'', ''10-Q''),
           (''filed'', ''2021-01-28'')]])])])]\<rparr>)"
  by code_simp

text \<open>
  C2, amended.  The check is made per unit, on the columns of the unit's table, which
  are the keys that occur in any of its events (\<open>missing_columns_DataFrame\<close>).  For a
  document with the keys \<^verbatim>\<open>entityName\<close> and \<^verbatim>\<open>facts\<close>: when for some unit a core
  column other than \<^verbatim>\<open>start\<close> and \<^verbatim>\<open>frame\<close> is missing, \<open>parse_facts_json\<close> stops the
  process with \<open>SystemExit\<close>; otherwise, when there is at least one unit, it succeeds,
  and for every unit the table has each of the nine core columns: filled with the
  absent marker when the column was missing, and the events' values otherwise.
\<close>

theorem parse_facts_json_column_check:
  assumes "entityName doc = Some name" and "facts doc = Some taxonomies"
  shows "(if \<exists>(t, g, u, events)\<in>set (all_units taxonomies).
              \<not> set (missing_columns (DataFrame events)) \<subseteq> {''start'', ''frame''}
          then parse_facts_json doc = Inl SystemExit
          else if all_units taxonomies = [] then parse_facts_json doc = Inl ValueError
          else \<exists>table. parse_facts_json doc = Inr table \<and>
                 (\<forall>(t, g, u, events)\<in>set (all_units taxonomies).
                    \<forall>c\<in>set ALLOWED_DATA_COLUMNS.
                      ((t, g, u, c),
                       (if c \<in> set (missing_columns (DataFrame events))
                        then replicate (nrows table) None
                        else map (\<lambda>e. map_of e c) events @
                             replicate (nrows table - length events) None))
                      \<in> set (columns table)))"
proof -
  let ?bad = "\<exists>(t, g, u, events)\<in>set (all_units taxonomies).
              \<not> set (missing_columns (DataFrame events)) \<subseteq> {''start'', ''frame''}"
  let ?frame = "\<lambda>(t, g, u, events).
                  with_labels (\<lambda>c. (t, g, u, c))
                    (fold set_nan (missing_columns (DataFrame events)) (DataFrame events))"
  let ?dfs = "map ?frame (all_units taxonomies)"
  note res = parse_facts_json_result [OF assms]
  show ?thesis
  proof (cases ?bad)
    case True
    with res show ?thesis by simp
  next
    case good: False
    show ?thesis
    proof (cases "all_units taxonomies = []")
      case True
      with res good show ?thesis by (simp add: pd_concat_def)
    next
      case False
      then have "?dfs \<noteq> []" by simp
      then obtain table where table: "pd_concat ?dfs = Inr table"
        by (auto simp: pd_concat_def Let_def)
      with res good have parsed: "parse_facts_json doc = Inr table" by simp
      have cols_ok: "((t, g, u, c),
             (if c \<in> set (missing_columns (DataFrame events))
              then replicate (nrows table) None
              else map (\<lambda>e. map_of e c) events @
                   replicate (nrows table - length events) None))
            \<in> set (columns table)"
        if unit: "(t, g, u, events) \<in> set (all_units taxonomies)"
          and c: "c \<in> set ALLOWED_DATA_COLUMNS" for t g u events c
      proof -
        let ?df = "?frame (t, g, u, events)"
        from unit have mem: "?df \<in> set ?dfs" unfolding set_map by (rule imageI)
        have n: "nrows ?df = length events"
          by (simp add: checked_frame_nrows DataFrame_def)
        have cols: "columns ?df =
            map (\<lambda>(c, cells). ((t, g, u, c), cells)) (columns (DataFrame events)) @
            map (\<lambda>c. ((t, g, u, c), replicate (length events) None))
              (missing_columns (DataFrame events))"
          by (simp add: checked_frame_columns DataFrame_def)
        show ?thesis
        proof (cases "c \<in> set (missing_columns (DataFrame events))")
          case True
          then have "((t, g, u, c), replicate (length events) None) \<in> set (columns ?df)"
            by (subst cols) force
          from pd_concat_column [OF table mem this]
          have "((t, g, u, c), replicate (length events) None @
                   replicate (nrows table - length events) None) \<in> set (columns table)"
            and "length events \<le> nrows table" using n by simp_all
          then have "((t, g, u, c), replicate (nrows table) None) \<in> set (columns table)"
            by (simp add: replicate_add [symmetric])
          with True show ?thesis by simp
        next
          case False
          with c have "c \<in> set (keys (columns (DataFrame events)))"
            by (simp add: missing_columns_props(3))
          then have "(c, map (\<lambda>e. map_of e c) events) \<in> set (columns (DataFrame events))"
            by (auto simp: DataFrame_def keys_def)
          then have "((t, g, u, c), map (\<lambda>e. map_of e c) events) \<in> set (columns ?df)"
            by (subst cols) force
          from pd_concat_column(1) [OF table mem this] False show ?thesis by simp
        qed
      qed
      have "\<forall>x\<in>set (all_units taxonomies).
              case x of (t, g, u, events) \<Rightarrow>
                \<forall>c\<in>set ALLOWED_DATA_COLUMNS.
                  ((t, g, u, c),
                   (if c \<in> set (missing_columns (DataFrame events))
                    then replicate (nrows table) None
                    else map (\<lambda>e. map_of e c) events @
                         replicate (nrows table - length events) None))
                  \<in> set (columns table)"
      proof (intro ballI)
        fix x assume xmem: "x \<in> set (all_units taxonomies)"
        obtain t g u events where x: "x = (t, g, u, events)" by (cases x) auto
        have "\<forall>c\<in>set ALLOWED_DATA_COLUMNS.
                ((t, g, u, c),
                 (if c \<in> set (missing_columns (DataFrame events))
                  then replicate (nrows table) None
                  else map (\<lambda>e. map_of e c) events @
                       replicate (nrows table - length events) None))
                \<in> set (columns table)"
          using cols_ok [of t g u events] xmem x by blast
        then show "case x of (t, g, u, events) \<Rightarrow>
                \<forall>c\<in>set ALLOWED_DATA_COLUMNS.
                  ((t, g, u, c),
                   (if c \<in> set (missing_columns (DataFrame events))
                    then replicate (nrows table) None
                    else map (\<lambda>e. map_of e c) events @
                         replicate (nrows table - length events) None))
                  \<in> set (columns table)"
          by (simp only: x prod.case)
      qed
      with parsed have "\<exists>table. parse_facts_json doc = Inr table \<and>
          (\<forall>x\<in>set (all_units taxonomies).
              case x of (t, g, u, events) \<Rightarrow>
                \<forall>c\<in>set ALLOWED_DATA_COLUMNS.
                  ((t, g, u, c),
                   (if c \<in> set (missing_columns (DataFrame events))
                    then replicate (nrows table) None
                    else map (\<lambda>e. map_of e c) events @
                         replicate (nrows table - length events) None))
                  \<in> set (columns table))"
        by blast
      with good False show ?thesis by (simp only: if_False)
    qed
  qed
qed

theorem parse_facts_json_column_check_witness:
  "entityName (example_facts example_taxonomies) = Some ''Apple Inc.'' \<and>
   facts (example_facts example_taxonomies) = Some example_taxonomies \<and>
   (\<exists>table. parse_facts_json (example_facts example_taxonomies) = Inr table \<and>
      ((''us-gaap'', ''Assets'', ''USD'', ''start''), replicate (nrows table) None)
        \<in> set (columns table)) \<and>
   entityName (example_facts example_taxonomies_no_accn) = Some ''Apple Inc.'' \<and>
   facts (example_facts example_taxonomies_no_accn) = Some example_taxonomies_no_accn \<and>
   parse_facts_json (example_facts example_taxonomies_no_accn) = Inl SystemExit"
proof -
  let ?events = "[[(''end'', ''2020-09-26''), (''val'', ''323888000000''),
          (''accn'', ''0000320193-20-000096''), (''fy'', ''2020''), (''fp'', ''FY''),
          (''form'', ''10-K''), (''filed'', ''2020-10-30''), (''frame'', ''CY2020Q3I'')]]"
  have n1: "entityName (example_facts example_taxonomies) = Some ''Apple Inc.''"
    and f1: "facts (example_facts example_taxonomies) = Some example_taxonomies"
    and n2: "entityName (example_facts example_taxonomies_no_accn) = Some ''Apple Inc.''"
    and f2: "facts (example_facts example_taxonomies_no_accn) = Some example_taxonomies_no_accn"
    by (simp_all add: example_facts_def)
  have units: "all_units example_taxonomies = [(''us-gaap'', ''Assets'', ''USD'', ?events)]"
    by (simp add: all_units_def example_taxonomies_def)
  have missing: "missing_columns (DataFrame ?events) = [''start'']"
    by code_simp
  have good: "\<not> (\<exists>(t, g, u, events)\<in>set (all_units example_taxonomies).
                   \<not> set (missing_columns (DataFrame events)) \<subseteq> {''start'', ''frame''})"
    by (simp add: units missing)
  have nonempty: "all_units example_taxonomies \<noteq> []" by (simp add: units)
  from parse_facts_json_column_check [OF n1 f1] good nonempty
  obtain table where t: "parse_facts_json (example_facts example_taxonomies) = Inr table"
    and all: "\<forall>(t, g, u, events)\<in>set (all_units example_taxonomies).
                \<forall>c\<in>set ALLOWED_DATA_COLUMNS.
                  ((t, g, u, c),
                   (if c \<in> set (missing_columns (DataFrame events))
                    then replicate (nrows table) None
                    else map (\<lambda>e. map_of e c) events @
                         replicate (nrows table - length events) None))
                  \<in> set (columns table)"
    by (simp only: if_False) blast
  have allowed: "''start'' \<in> set ALLOWED_DATA_COLUMNS"
    by (simp add: ALLOWED_DATA_COLUMNS_def)
  from all have "\<forall>c\<in>set ALLOWED_DATA_COLUMNS.
                  ((''us-gaap'', ''Assets'', ''USD'', c),
                   (if c \<in> set (missing_columns (DataFrame ?events))
                    then replicate (nrows table) None
                    else map (\<lambda>e. map_of e c) ?events @
                         replicate (nrows table - length ?events) None))
                  \<in> set (columns table)"
    by (simp add: units)
  from bspec [OF this allowed] have start:
    "((''us-gaap'', ''Assets'', ''USD'', ''start''), replicate (nrows table) None)
       \<in> set (columns table)"
    by (simp add: missing)
  have bad: "\<exists>(t, g, u, events)\<in>set (all_units example_taxonomies_no_accn).
               \<not> set (missing_columns (DataFrame events)) \<subseteq> {''start'', ''frame''}"
    by code_simp
  from parse_facts_json_column_check [OF n2 f2] bad
  have exit: "parse_facts_json (example_facts example_taxonomies_no_accn) = Inl SystemExit"
    by (simp only: if_True)
  from n1 f1 n2 f2 t start exit show ?thesis by blast
qed

section \<open>The bulk extraction is idempotent\<close>

text \<open>
  What a worker does depends on the output directory only through the test for its
  own output file: the worker either has nothing to write (\<open>None\<close>), or it has one
  file, which it writes unless the path exists.
\<close>

lemma parse_open_json_action:
  "\<exists>action. \<forall>fs. fst (parse_open_json C filename loaded zip_name t2c c2t folder fs) =
     (case action of
        None \<Rightarrow> fs
      | Some (path, table) \<Rightarrow> if os_path_exists fs path then fs else to_pickle path table fs)"
proof (cases loaded)
  case (Inl e)
  then have "\<forall>fs. fst (parse_open_json C filename loaded zip_name t2c c2t folder fs) =
     (case None :: (string \<times> (label, 'a) frame) option of
        None \<Rightarrow> fs
      | Some (path, table) \<Rightarrow> if os_path_exists fs path then fs else to_pickle path table fs)"
    by (simp add: parse_open_json_def parse_open_json_try_def)
  then show ?thesis by blast
next
  case (Inr data)
  show ?thesis
  proof (cases "output_file_path C data zip_name t2c c2t folder")
    case (Inl e)
    with Inr have "\<forall>fs. fst (parse_open_json C filename loaded zip_name t2c c2t folder fs) =
       (case None :: (string \<times> (label, 'a) frame) option of
          None \<Rightarrow> fs
        | Some (path, table) \<Rightarrow> if os_path_exists fs path then fs else to_pickle path table fs)"
      by (simp add: parse_open_json_def parse_open_json_try_def)
    then show ?thesis by blast
  next
    case path: (Inr path)
    obtain result calls where made: "facts_table data = (result, calls)"
      by (cases "facts_table data") auto
    show ?thesis
    proof (cases result)
      case (Inl e)
      with Inr path made
      have "\<forall>fs. fst (parse_open_json C filename loaded zip_name t2c c2t folder fs) =
         (case None :: (string \<times> (label, 'a) frame) option of
            None \<Rightarrow> fs
          | Some (path, table) \<Rightarrow> if os_path_exists fs path then fs else to_pickle path table fs)"
        by (simp add: parse_open_json_def parse_open_json_try_def)
      then show ?thesis by blast
    next
      case table: (Inr table)
      with Inr path made
      have "\<forall>fs. fst (parse_open_json C filename loaded zip_name t2c c2t folder fs) =
         (case Some (path, table) of
            None \<Rightarrow> fs
          | Some (path, table) \<Rightarrow> if os_path_exists fs path then fs else to_pickle path table fs)"
        by (simp add: parse_open_json_def parse_open_json_try_def)
      then show ?thesis by blast
    qed
  qed
qed

text \<open>A step of this kind, and a run of such steps: files are added, never removed.\<close>

lemma to_pickle_exists:
  "os_path_exists (to_pickle path table fs) p = (p = path \<or> os_path_exists fs p)"
  by (auto simp: os_path_exists_def to_pickle_def keys_def dom_update)

lemma fold_steps_fixed:
  assumes step: "\<And>m fs. m \<in> set ms \<Longrightarrow> step m fs =
      (case action m of
         None \<Rightarrow> fs
       | Some (path, table) \<Rightarrow> if os_path_exists fs path then fs else to_pickle path table fs)"
  shows "(\<forall>p. os_path_exists fs p \<longrightarrow> os_path_exists (fold step ms fs) p) \<and>
         (\<forall>m\<in>set ms. \<forall>path table. action m = Some (path, table) \<longrightarrow>
              os_path_exists (fold step ms fs) path)"
  using step
proof (induction ms arbitrary: fs)
  case Nil
  then show ?case by simp
next
  case (Cons m ms)
  have m: "step m fs =
      (case action m of
         None \<Rightarrow> fs
       | Some (path, table) \<Rightarrow> if os_path_exists fs path then fs else to_pickle path table fs)"
    by (rule Cons.prems) simp
  have grow: "\<forall>p. os_path_exists fs p \<longrightarrow> os_path_exists (step m fs) p"
    by (auto simp: m to_pickle_exists split: option.splits)
  have own: "\<forall>path table. action m = Some (path, table) \<longrightarrow> os_path_exists (step m fs) path"
    by (auto simp: m to_pickle_exists split: option.splits)
  have IH: "(\<forall>p. os_path_exists (step m fs) p \<longrightarrow> os_path_exists (fold step ms (step m fs)) p) \<and>
         (\<forall>m'\<in>set ms. \<forall>path table. action m' = Some (path, table) \<longrightarrow>
              os_path_exists (fold step ms (step m fs)) path)"
    by (rule Cons.IH) (rule Cons.prems, simp)
  from grow own IH show ?case by auto
qed

lemma fold_steps_idle:
  assumes step: "\<And>m fs. m \<in> set ms \<Longrightarrow> step m fs =
      (case action m of
         None \<Rightarrow> fs
       | Some (path, table) \<Rightarrow> if os_path_exists fs path then fs else to_pickle path table fs)"
    and present: "\<forall>m\<in>set ms. \<forall>path table. action m = Some (path, table) \<longrightarrow>
              os_path_exists fs path"
  shows "fold step ms fs = fs"
  using step present
proof (induction ms)
  case Nil
  then show ?case by simp
next
  case (Cons m ms)
  have "step m fs =
      (case action m of
         None \<Rightarrow> fs
       | Some (path, table) \<Rightarrow> if os_path_exists fs path then fs else to_pickle path table fs)"
    by (rule Cons.prems) simp
  with Cons.prems(2) have "step m fs = fs" by (auto split: option.splits)
  moreover have "fold step ms fs = fs"
    by (rule Cons.IH) (rule Cons.prems, simp, use Cons.prems(2) in simp)
  ultimately show ?case by simp
qed

lemma parse_open_json_skips:
  assumes "output_file_path C data zip_name t2c c2t folder = Inr path"
    and "os_path_exists fs path"
  shows "parse_open_json C filename (Inr data) zip_name t2c c2t folder fs =
     (fs, [Json_load filename, Os_path_exists path])"
  using assms by (simp add: parse_open_json_def parse_open_json_try_def)

text \<open>The output directory that a run leaves is that of its workers, one after the other.\<close>

lemma fold_workers_fst:
  "fst (fold (\<lambda>m (fs, calls). (case worker m fs of (fs', calls') \<Rightarrow> (fs', calls @ calls')))
          ms (fs, cs)) =
   fold (\<lambda>m fs. fst (worker m fs)) ms fs"
proof (induction ms arbitrary: fs cs)
  case Nil
  then show ?case by simp
next
  case (Cons m ms)
  obtain fs' calls' where w: "worker m fs = (fs', calls')" by (cases "worker m fs") auto
  from Cons.IH [of fs' "cs @ calls'"] show ?case by (simp add: w)
qed

lemma parse_all_facts_twice:
  fixes archive :: "(string \<times> (py_error + 'a company_json)) list"
  shows "fst (parse_all_facts_in_latest_zip C self zip_name archive
     (fst (parse_all_facts_in_latest_zip C self zip_name archive fs))) =
   fst (parse_all_facts_in_latest_zip C self zip_name archive fs)"
proof -
  define worker :: "string \<times> (py_error + 'a company_json) \<Rightarrow> (label, 'a) frame filesystem
      \<Rightarrow> (label, 'a) frame filesystem \<times> call list"
    where "worker =
    (\<lambda>m fs.
       parse_open_json C (fst m) (snd m) zip_name (ticker_to_cik_mapping self)
         (cik_to_ticker_mapping self) (facts_save_folder self) fs)"
  define step :: "string \<times> (py_error + 'a company_json) \<Rightarrow> (label, 'a) frame filesystem
      \<Rightarrow> (label, 'a) frame filesystem"
    where "step = (\<lambda>m fs. fst (worker m fs))"
  define ms where "ms = filter (\<lambda>(filename, loaded). endswith filename ''.json'') archive"
  have body: "(\<lambda>(filename, loaded) (fs, calls).
             (case parse_open_json C filename loaded zip_name (ticker_to_cik_mapping self)
                     (cik_to_ticker_mapping self) (facts_save_folder self) fs of
                (fs', calls') \<Rightarrow> (fs', calls @ calls'))) =
      (\<lambda>m (fs, calls). (case worker m fs of (fs', calls') \<Rightarrow> (fs', calls @ calls')))"
    by (auto simp: worker_def fun_eq_iff split: prod.splits)
  have run: "\<And>fs. fst (parse_all_facts_in_latest_zip C self zip_name archive fs) = fold step ms fs"
    unfolding parse_all_facts_in_latest_zip_def body step_def ms_def
    by (rule fold_workers_fst)
  have "\<forall>m. \<exists>action. \<forall>fs. step m fs =
      (case action of
         None \<Rightarrow> fs
       | Some (path, table) \<Rightarrow> if os_path_exists fs path then fs else to_pickle path table fs)"
  proof
    fix m :: "string \<times> (py_error + 'a company_json)"
    from parse_open_json_action [of C "fst m" "snd m" zip_name "ticker_to_cik_mapping self"
        "cik_to_ticker_mapping self" "facts_save_folder self"]
    show "\<exists>action. \<forall>fs. step m fs =
      (case action of
         None \<Rightarrow> fs
       | Some (path, table) \<Rightarrow> if os_path_exists fs path then fs else to_pickle path table fs)"
      by (simp add: step_def worker_def)
  qed
  then have "\<exists>action. \<forall>m. \<forall>fs. step m fs =
      (case action m of
         None \<Rightarrow> fs
       | Some (path, table) \<Rightarrow> if os_path_exists fs path then fs else to_pickle path table fs)"
    by (rule choice)
  then obtain action where action: "\<And>m fs. step m fs =
      (case action m of
         None \<Rightarrow> fs
       | Some (path, table) \<Rightarrow> if os_path_exists fs path then fs else to_pickle path table fs)"
    by blast
  have first: "(\<forall>p. os_path_exists fs p \<longrightarrow> os_path_exists (fold step ms fs) p) \<and>
         (\<forall>m\<in>set ms. \<forall>path table. action m = Some (path, table) \<longrightarrow>
              os_path_exists (fold step ms fs) path)"
    by (rule fold_steps_fixed) (rule action)
  have "fold step ms (fold step ms fs) = fold step ms fs"
  proof (rule fold_steps_idle)
    show "\<And>m fs. m \<in> set ms \<Longrightarrow> step m fs =
      (case action m of
         None \<Rightarrow> fs
       | Some (path, table) \<Rightarrow> if os_path_exists fs path then fs else to_pickle path table fs)"
      by (rule action)
    show "\<forall>m\<in>set ms. \<forall>path table. action m = Some (path, table) \<longrightarrow>
              os_path_exists (fold step ms fs) path"
      using first by (rule conjunct2)
  qed
  then show ?thesis by (simp add: run)
qed

text \<open>
  C4, as stated, fails: the worker on a member whose output file exists has parsed
  the member's JSON content, for \<^verbatim>\<open>json.load\<close> is among its calls.  It comes before
  the test, which needs the path, which needs the identifier in the document.
\<close>

theorem parse_open_json_loads_before_skip:
  "output_file_path example_constants (example_facts example_taxonomies) example_zip_name
     (ticker_to_cik_mapping example_client) (cik_to_ticker_mapping example_client)
     (facts_save_folder example_client) =
     Inr ''./sec-edgar-facts/AAPL_facts-2023-09-01.pkl'' \<and>
   os_path_exists
     (\<lparr>files = [(''./sec-edgar-facts/AAPL_facts-2023-09-01.pkl'', \<lparr>nrows = 0, columns = []\<rparr>)],
       writes = []\<rparr> :: (label, string) frame filesystem)
     ''./sec-edgar-facts/AAPL_facts-2023-09-01.pkl'' \<and>
   Json_load ''CIK0000320193.json'' \<in> set (snd
     (parse_open_json example_constants ''CIK0000320193.json''
        (Inr (example_facts example_taxonomies)) example_zip_name
        (ticker_to_cik_mapping example_client) (cik_to_ticker_mapping example_client)
        (facts_save_folder example_client)
        (\<lparr>files = [(''./sec-edgar-facts/AAPL_facts-2023-09-01.pkl'', \<lparr>nrows = 0, columns = []\<rparr>)],
          writes = []\<rparr> :: (label, string) frame filesystem)))"
  by code_simp

text \<open>
  C4.  For a member whose computed output path exists, the worker has parsed the
  member's JSON content: \<^verbatim>\<open>json.load\<close> is its first call, and the path is computed
  from the loaded document.  After the test for the path it returns: these two calls
  are all it makes (no frame is built, nothing is written), and the output directory
  is as it was.  And running the extraction over the archive a second time, on the
  directory that the first run left, changes nothing: the files and the list of
  writes are those of the first run.
\<close>

theorem bulk_extraction_idempotent:
  "(output_file_path C data zip_name t2c c2t folder = Inr path \<and> os_path_exists fs path \<longrightarrow>
      parse_open_json C filename (Inr data) zip_name t2c c2t folder fs =
        (fs, [Json_load filename, Os_path_exists path])) \<and>
   fst (parse_all_facts_in_latest_zip C self zip_name archive
     (fst (parse_all_facts_in_latest_zip C self zip_name archive fs'))) =
   fst (parse_all_facts_in_latest_zip C self zip_name archive fs')"
  using parse_open_json_skips [of C data zip_name t2c c2t folder path fs filename]
    parse_all_facts_twice [of C self zip_name archive fs']
  by blast

lemma example_output_file_path:
  "output_file_path example_constants (example_facts example_taxonomies) example_zip_name
     (ticker_to_cik_mapping example_client) (cik_to_ticker_mapping example_client)
     (facts_save_folder example_client) =
   Inr ''./sec-edgar-facts/AAPL_facts-2023-09-01.pkl''"
  by code_simp

lemma example_first_run_writes:
  "writes (fst (parse_all_facts_in_latest_zip example_constants example_client example_zip_name
     example_archive empty_directory)) = [''./sec-edgar-facts/AAPL_facts-2023-09-01.pkl'']"
  by code_simp

theorem bulk_extraction_idempotent_witness:
  "output_file_path example_constants (example_facts example_taxonomies) example_zip_name
     (ticker_to_cik_mapping example_client) (cik_to_ticker_mapping example_client)
     (facts_save_folder example_client) =
     Inr ''./sec-edgar-facts/AAPL_facts-2023-09-01.pkl'' \<and>
   os_path_exists
     (\<lparr>files = [(''./sec-edgar-facts/AAPL_facts-2023-09-01.pkl'', \<lparr>nrows = 0, columns = []\<rparr>)],
       writes = []\<rparr> :: (label, string) frame filesystem)
     ''./sec-edgar-facts/AAPL_facts-2023-09-01.pkl'' \<and>
   parse_open_json example_constants ''CIK0000320193.json''
     (Inr (example_facts example_taxonomies)) example_zip_name
     (ticker_to_cik_mapping example_client) (cik_to_ticker_mapping example_client)
     (facts_save_folder example_client)
     \<lparr>files = [(''./sec-edgar-facts/AAPL_facts-2023-09-01.pkl'', \<lparr>nrows = 0, columns = []\<rparr>)],
      writes = []\<rparr> =
     (\<lparr>files = [(''./sec-edgar-facts/AAPL_facts-2023-09-01.pkl'', \<lparr>nrows = 0, columns = []\<rparr>)],
       writes = []\<rparr>,
      [Json_load ''CIK0000320193.json'',
       Os_path_exists ''./sec-edgar-facts/AAPL_facts-2023-09-01.pkl'']) \<and>
   writes (fst (parse_all_facts_in_latest_zip example_constants example_client example_zip_name
     example_archive
     (fst (parse_all_facts_in_latest_zip example_constants example_client example_zip_name
        example_archive empty_directory)))) = [''./sec-edgar-facts/AAPL_facts-2023-09-01.pkl'']"
proof -
  let ?path = "''./sec-edgar-facts/AAPL_facts-2023-09-01.pkl''"
  let ?fs = "\<lparr>files = [(?path, \<lparr>nrows = 0, columns = []\<rparr>)], writes = []\<rparr>
               :: (label, string) frame filesystem"
  have ex: "os_path_exists ?fs ?path" by (simp add: os_path_exists_def keys_def)
  note inst = bulk_extraction_idempotent
    [where C = example_constants and data = "example_facts example_taxonomies"
       and zip_name = example_zip_name and ?t2c = "ticker_to_cik_mapping example_client"
       and ?c2t = "cik_to_ticker_mapping example_client"
       and folder = "facts_save_folder example_client" and path = ?path and fs = ?fs
       and filename = "''CIK0000320193.json''" and self = example_client
       and archive = example_archive and fs' = empty_directory]
  from inst example_output_file_path ex
  have skip: "parse_open_json example_constants ''CIK0000320193.json''
     (Inr (example_facts example_taxonomies))
     example_zip_name (ticker_to_cik_mapping example_client)
     (cik_to_ticker_mapping example_client) (facts_save_folder example_client) ?fs =
     (?fs, [Json_load ''CIK0000320193.json'', Os_path_exists ?path])"
    by blast
  from inst
  have "fst (parse_all_facts_in_latest_zip example_constants example_client example_zip_name
     example_archive
     (fst (parse_all_facts_in_latest_zip example_constants example_client example_zip_name
        example_archive empty_directory))) =
     fst (parse_all_facts_in_latest_zip example_constants example_client example_zip_name
        example_archive empty_directory)"
    by blast
  with example_first_run_writes
  have twice: "writes (fst (parse_all_facts_in_latest_zip example_constants example_client
     example_zip_name example_archive
     (fst (parse_all_facts_in_latest_zip example_constants example_client example_zip_name
        example_archive empty_directory)))) = [?path]"
    by simp
  from example_output_file_path ex skip twice show ?thesis by blast
qed

section \<open>The limit of the aggregator\<close>

text \<open>
  The row loop keeps the count equal to the length of the list, and it is left by the
  \<^verbatim>\<open>return\<close> exactly when the count has reached the limit.
\<close>

lemma rows_loop_count:
  assumes "rows_loop C md as fs ds fds filings n = Inr exit"
    and "n = int (length filings)" and "n < limit md"
  shows "case exit of
           Returned filings' \<Rightarrow> int (length filings') = limit md
         | Completed filings' n' \<Rightarrow> n' = int (length filings') \<and> n' < limit md"
  using assms
proof (induction C md as fs ds fds filings n rule: rows_loop.induct)
  case (1 C md filings n)
  then show ?case by auto
next
  case (2 C md a as f fs d ds fd fds filings n)
  show ?case
  proof (cases "row_skipped C md f fd")
    case (Inl e)
    with "2.prems" show ?thesis by simp
  next
    case (Inr skipped)
    show ?thesis
    proof (cases skipped)
      case True
      with Inr have rs: "row_skipped C md f fd = Inr True" by simp
      with "2.prems" have call: "rows_loop C md as fs ds fds filings n = Inr exit" by simp
      show ?thesis
        by (rule "2.IH"(1) [OF rs refl call]) (use "2.prems" in simp_all)
    next
      case False
      with Inr have rs: "row_skipped C md f fd = Inr False" by simp
      show ?thesis
      proof (cases "n + 1 = limit md")
        case True
        with rs "2.prems" show ?thesis by (auto simp: Let_def)
      next
        case nolimit: False
        with rs "2.prems"
        have call: "rows_loop C md as fs ds fds
             (filings @ [get_to_download C (cik md) a f d]) (n + 1) = Inr exit"
          by (simp add: Let_def)
        show ?thesis
          by (rule "2.IH"(2) [OF rs refl refl refl nolimit call])
            (use "2.prems" nolimit in simp_all)
      qed
    qed
  qed
qed simp_all

lemma fetch_page_log:
  "fetch_page C S md u additional filings n log = (r, log') \<Longrightarrow>
     log' = log @ [(u, HOST_DATA_SEC C)]"
  by (auto simp: fetch_page_def rate_limited_get_def Let_def
      split: prod.splits sum.splits option.splits)

lemma fetch_page_count:
  assumes "fetch_page C S md u additional filings n log = (Inr (exit, queue), log')"
    and "n = int (length filings)" and "n < limit md"
  shows "case exit of
           Returned filings' \<Rightarrow> int (length filings') = limit md
         | Completed filings' n' \<Rightarrow> n' = int (length filings') \<and> n' < limit md"
proof -
  from assms(1) obtain as fs ds fds where "rows_loop C md as fs ds fds filings n = Inr exit"
    by (auto simp: fetch_page_def split: prod.splits sum.splits)
  then show ?thesis using assms(2,3) by (rule rows_loop_count)
qed

text \<open>Whatever the session answers, a list that is returned is within the limit.\<close>

lemma pages_loop_bound:
  "pages_loop C S md u additional filings n log = (Inr fs, log') \<Longrightarrow>
   n = int (length filings) \<Longrightarrow> n \<le> limit md \<Longrightarrow> int (length fs) \<le> limit md"
proof (induction C S md u additional filings n log arbitrary: fs log' rule: pages_loop.induct)
  case (1 C S md u additional filings n log)
  note run = "1.prems"(1)
  show ?case
  proof (cases "n < limit md")
    case False
    with run have "fs = filings" by (subst (asm) pages_loop.simps) simp
    with "1.prems" show ?thesis by simp
  next
    case True
    obtain r log1 where fp: "fetch_page C S md u additional filings n log = (r, log1)"
      by (cases "fetch_page C S md u additional filings n log") auto
    show ?thesis
    proof (cases r)
      case (Inl e)
      with run True fp show ?thesis by (subst (asm) pages_loop.simps) simp
    next
      case (Inr b)
      obtain exit queue where b: "b = (exit, queue)" by (cases b) auto
      from fp Inr b
      have fp': "fetch_page C S md u additional filings n log = (Inr (exit, queue), log1)"
        by simp
      from fetch_page_count [OF fp' "1.prems"(2) True]
      have cnt: "case exit of
           Returned filings' \<Rightarrow> int (length filings') = limit md
         | Completed filings' n' \<Rightarrow> n' = int (length filings') \<and> n' < limit md" .
      show ?thesis
      proof (cases exit)
        case (Returned fs')
        with run True fp' have "fs = fs'" by (subst (asm) pages_loop.simps) simp
        with cnt Returned show ?thesis by simp
      next
        case (Completed fs' n')
        show ?thesis
        proof (cases queue)
          case Nil
          with run True fp' Completed have "fs = fs'"
            by (subst (asm) pages_loop.simps) simp
          with cnt Completed show ?thesis by simp
        next
          case (Cons next_page rest)
          with run True fp' Completed
          have rec: "pages_loop C S md (URL_PAGINATED_SUBMISSIONS C next_page) (Some rest)
                       fs' n' log1 = (Inr fs, log')"
            by (subst (asm) pages_loop.simps) simp
          have nn: "\<not> \<not> n < limit md" using True by simp
          from fp' Completed Cons
          have eq: "(Inr (Completed fs' n', next_page # rest), log1) =
                    fetch_page C S md u additional filings n log"
            by simp
          show ?thesis
            by (rule "1.IH" [OF nn eq refl refl refl refl rec]) (use cnt Completed in simp_all)
        qed
      qed
    qed
  qed
qed

text \<open>
  On a well-formed page the row loop, with \<open>r\<close> descriptors still to find, returns
  at the \<open>r\<close>-th row that passes the test, and otherwise takes all that pass.
\<close>

lemma row_skipped_parses:
  "strptime C fd \<noteq> None \<Longrightarrow> \<exists>b. row_skipped C md f fd = Inr b"
  by (auto simp: row_skipped_def within_requested_date_range_def)

lemma rows_loop_well_formed:
  assumes "list_all (\<lambda>(a, f, d, fd). strptime C fd \<noteq> None) rows"
    and "limit md = n + int r" and "0 < r"
  shows "rows_loop C md (map (\<lambda>(a, f, d, fd). a) rows) (map (\<lambda>(a, f, d, fd). f) rows)
           (map (\<lambda>(a, f, d, fd). d) rows) (map (\<lambda>(a, f, d, fd). fd) rows) filings n =
         Inr (if r \<le> length (filter (\<lambda>(a, f, d, fd). row_skipped C md f fd = Inr False) rows)
              then Returned (filings @ take r
                     (map (\<lambda>(a, f, d, fd). get_to_download C (cik md) a f d)
                        (filter (\<lambda>(a, f, d, fd). row_skipped C md f fd = Inr False) rows)))
              else Completed (filings @
                     map (\<lambda>(a, f, d, fd). get_to_download C (cik md) a f d)
                        (filter (\<lambda>(a, f, d, fd). row_skipped C md f fd = Inr False) rows))
                     (n + int (length
                        (filter (\<lambda>(a, f, d, fd). row_skipped C md f fd = Inr False) rows))))"
  using assms
proof (induction rows arbitrary: filings n r)
  case Nil
  then show ?case by simp
next
  case (Cons row rows)
  obtain a f d fd where row: "row = (a, f, d, fd)" by (cases row) auto
  from Cons.prems(1) row have parses: "strptime C fd \<noteq> None"
    and rest: "list_all (\<lambda>(a, f, d, fd). strptime C fd \<noteq> None) rows"
    by simp_all
  from row_skipped_parses [OF parses] obtain b where b: "row_skipped C md f fd = Inr b"
    by blast
  show ?case
  proof (cases b)
    case True
    with b have skip: "row_skipped C md f fd = Inr True" by simp
    from Cons.IH [OF rest Cons.prems(2,3), of filings] skip row show ?thesis by simp
  next
    case False
    with b have take: "row_skipped C md f fd = Inr False" by simp
    show ?thesis
    proof (cases "r = 1")
      case True
      with Cons.prems(2) have "n + 1 = limit md" by simp
      with take row True show ?thesis by (simp add: Let_def)
    next
      case False
      with Cons.prems(3) obtain r' where r': "r = Suc r'" and pos: "0 < r'"
        by (cases r) auto
      from Cons.prems(2) r' have lim: "limit md = (n + 1) + int r'" by simp
      from lim pos have ne: "n + 1 \<noteq> limit md" by simp
      from Cons.IH [OF rest lim pos, of "filings @ [get_to_download C (cik md) a f d]"]
        take row ne r'
      show ?thesis by (simp add: Let_def)
    qed
  qed
qed

lemma unzip_rows:
  assumes "length fs = length as" "length ds = length as" "length fds = length as"
  shows "map (\<lambda>(a, f, d, fd). a) (zip as (zip fs (zip ds fds))) = as"
    and "map (\<lambda>(a, f, d, fd). f) (zip as (zip fs (zip ds fds))) = fs"
    and "map (\<lambda>(a, f, d, fd). d) (zip as (zip fs (zip ds fds))) = ds"
    and "map (\<lambda>(a, f, d, fd). fd) (zip as (zip fs (zip ds fds))) = fds"
proof -
  from assms have l: "length as = length fs" "length fs = length ds" "length ds = length fds"
    by simp_all
  from l show "map (\<lambda>(a, f, d, fd). a) (zip as (zip fs (zip ds fds))) = as"
    by (induction as fs ds fds rule: list_induct4) simp_all
  from l show "map (\<lambda>(a, f, d, fd). f) (zip as (zip fs (zip ds fds))) = fs"
    by (induction as fs ds fds rule: list_induct4) simp_all
  from l show "map (\<lambda>(a, f, d, fd). d) (zip as (zip fs (zip ds fds))) = ds"
    by (induction as fs ds fds rule: list_induct4) simp_all
  from l show "map (\<lambda>(a, f, d, fd). fd) (zip as (zip fs (zip ds fds))) = fds"
    by (induction as fs ds fds rule: list_induct4) simp_all
qed

lemma fetch_page_well_formed:
  assumes served: "served_page C S u j"
    and sel: "select_filings additional j = Inr (d, queue)"
    and wf: "well_formed_page C d"
    and lim: "limit md = n + int r" and pos: "0 < r"
  shows "fetch_page C S md u additional filings n log =
           (Inr (if r \<le> length (page_descriptors C md d)
                 then Returned (filings @ take r (page_descriptors C md d))
                 else Completed (filings @ page_descriptors C md d)
                        (n + int (length (page_descriptors C md d))),
                 queue),
            log @ [(u, HOST_DATA_SEC C)])"
proof -
  from served obtain resp where resp: "S (u, HOST_DATA_SEC C) = Inr resp"
    and ok: "raise_for_status resp = None" and js: "json resp = Inr j"
    by (auto simp: served_page_def split: sum.splits)
  from wf obtain as fs ds fds where cols: "page_columns d = Inr (as, fs, ds, fds)"
    and len: "length fs = length as" "length ds = length as" "length fds = length as"
    and dates: "list_all (\<lambda>fd. strptime C fd \<noteq> None) fds"
    by (auto simp: well_formed_page_def split: sum.splits)
  let ?rows = "zip as (zip fs (zip ds fds))"
  have rows: "page_rows d = ?rows" by (simp add: page_rows_def cols)
  have "set ?rows \<subseteq> {(a, f, d, fd). fd \<in> set fds}"
    by (auto dest!: set_zip_rightD)
  with dates have parse: "list_all (\<lambda>(a, f, d, fd). strptime C fd \<noteq> None) ?rows"
    by (auto simp: list_all_iff)
  have descs: "page_descriptors C md d =
      map (\<lambda>(a, f, d, fd). get_to_download C (cik md) a f d)
        (filter (\<lambda>(a, f, d, fd). row_skipped C md f fd = Inr False) ?rows)"
    by (simp add: page_descriptors_def rows)
  from rows_loop_well_formed [OF parse lim pos, of filings]
  have loop: "rows_loop C md as fs ds fds filings n =
      Inr (if r \<le> length (page_descriptors C md d)
           then Returned (filings @ take r (page_descriptors C md d))
           else Completed (filings @ page_descriptors C md d)
                  (n + int (length (page_descriptors C md d))))"
    by (simp only: unzip_rows [OF len] descs length_map)
  show ?thesis
    by (simp add: fetch_page_def rate_limited_get_def resp ok js sel cols loop Let_def)
qed

text \<open>
  The loop over the pages of a served history, from any page on, with \<open>r\<close>
  descriptors still to find: the result and the requests sent.
\<close>

lemma pages_loop_well_formed:
  assumes "served_page C S u j"
    and "select_filings additional j = Inr (d, map fst continuation)"
    and "well_formed_page C d"
    and "list_all (\<lambda>(name, page).
            served_page C S (URL_PAGINATED_SUBMISSIONS C name) (PageJSON page) \<and>
            well_formed_page C page) continuation"
    and "limit md = n + int r" and "0 < r"
  shows "pages_loop C S md u additional filings n log =
     (Inr (filings @ take r
             (concat (map (page_descriptors C md) (d # map snd continuation)))),
      log @ map (\<lambda>u. (u, HOST_DATA_SEC C))
              (take (pages_needed r
                       (map (\<lambda>p. length (page_descriptors C md p)) (d # map snd continuation)))
                 (u # map (\<lambda>(name, page). URL_PAGINATED_SUBMISSIONS C name) continuation)))"
  using assms
proof (induction continuation arbitrary: u j additional d filings n r log)
  case Nil
  from Nil.prems(5,6) have lt: "n < limit md" by simp
  from Nil.prems(2) have sel: "select_filings additional j = Inr (d, [])" by simp
  note fp = fetch_page_well_formed [OF Nil.prems(1) sel Nil.prems(3,5,6), of filings log]
  show ?case
  proof (cases "r \<le> length (page_descriptors C md d)")
    case True
    with fp lt show ?thesis by (subst pages_loop.simps) simp
  next
    case False
    with fp lt show ?thesis by (subst pages_loop.simps) simp
  qed
next
  case (Cons np continuation)
  obtain name page where np: "np = (name, page)" by (cases np) auto
  from Cons.prems(5,6) have lt: "n < limit md" by simp
  from Cons.prems(2) np
  have sel: "select_filings additional j = Inr (d, name # map fst continuation)" by simp
  note fp = fetch_page_well_formed [OF Cons.prems(1) sel Cons.prems(3,5,6), of filings log]
  show ?case
  proof (cases "r \<le> length (page_descriptors C md d)")
    case True
    with fp lt show ?thesis by (subst pages_loop.simps) simp
  next
    case False
    define k where "k = length (page_descriptors C md d)"
    from False have less: "k < r" by (simp add: k_def)
    then obtain r' where r': "r = k + r'" and pos: "0 < r'"
      by (metis less_imp_add_positive)
    from Cons.prems(5) r' have lim: "limit md = (n + int k) + int r'" by simp
    from Cons.prems(4) np
    have next_served: "served_page C S (URL_PAGINATED_SUBMISSIONS C name) (PageJSON page)"
      and next_wf: "well_formed_page C page"
      and rest: "list_all (\<lambda>(name, page).
            served_page C S (URL_PAGINATED_SUBMISSIONS C name) (PageJSON page) \<and>
            well_formed_page C page) continuation"
      by simp_all
    have next_sel: "select_filings (Some (map fst continuation)) (PageJSON page) =
        Inr (page, map fst continuation)"
      by (simp add: select_filings_def)
    note IH = Cons.IH [OF next_served next_sel next_wf rest lim pos,
        of "filings @ page_descriptors C md d" "log @ [(u, HOST_DATA_SEC C)]"]
    from fp False lt
    have step: "pages_loop C S md u additional filings n log =
        pages_loop C S md (URL_PAGINATED_SUBMISSIONS C name) (Some (map fst continuation))
          (filings @ page_descriptors C md d) (n + int k) (log @ [(u, HOST_DATA_SEC C)])"
      by (subst pages_loop.simps) (simp add: k_def)
    have taken: "take r (concat (map (page_descriptors C md) (d # map snd (np # continuation)))) =
        page_descriptors C md d @
        take r' (concat (map (page_descriptors C md) (page # map snd continuation)))"
      by (simp add: np r' k_def)
    have needed: "pages_needed r
        (map (\<lambda>p. length (page_descriptors C md p)) (d # map snd (np # continuation))) =
        Suc (pages_needed r'
          (map (\<lambda>p. length (page_descriptors C md p)) (page # map snd continuation)))"
      using less pos by (simp add: np r' k_def)
    show ?thesis
      by (simp only: step IH taken needed) (simp add: np)
  qed
qed

text \<open>
  C1.  For a request with limit \<open>L \<ge> 1\<close>: whatever the session answers, a list
  that \<open>aggregate_forms_to_download\<close> returns has at most \<open>L\<close> descriptors.  And
  when the session serves a filing history of well-formed pages, the call returns the
  first \<open>L\<close> descriptors of the pages in order (all of them when there are fewer),
  having sent the requests for the pages up to the one on which the count reached
  \<open>L\<close> and no request after it: \<open>pages_needed\<close> stops counting at that page, also
  when rows and continuation pages are left.
\<close>

theorem aggregate_forms_to_download_limit:
  assumes "1 \<le> limit md"
  shows "(aggregate_forms_to_download C S md log = (Inr fs, log') \<longrightarrow>
            int (length fs) \<le> limit md) \<and>
         (history_served C S md recent continuation \<longrightarrow>
            aggregate_forms_to_download C S md log =
              (Inr (take (nat (limit md))
                      (concat (map (page_descriptors C md) (recent # map snd continuation)))),
               log @ map (\<lambda>u. (u, HOST_DATA_SEC C))
                       (take (pages_needed (nat (limit md))
                                (map (\<lambda>p. length (page_descriptors C md p))
                                   (recent # map snd continuation)))
                          (URL_SUBMISSIONS C (cik md) #
                           map (\<lambda>(name, page). URL_PAGINATED_SUBMISSIONS C name) continuation))))"
proof (intro conjI impI)
  assume "aggregate_forms_to_download C S md log = (Inr fs, log')"
  then have "pages_loop C S md (URL_SUBMISSIONS C (cik md)) None [] 0 log = (Inr fs, log')"
    by (simp add: aggregate_forms_to_download_def)
  then show "int (length fs) \<le> limit md"
    by (rule pages_loop_bound) (use assms in simp_all)
next
  assume served: "history_served C S md recent continuation"
  then have first: "served_page C S (URL_SUBMISSIONS C (cik md))
                      (FilingsJSON recent (map fst continuation))"
    and wf: "well_formed_page C recent"
    and rest: "list_all (\<lambda>(name, page).
            served_page C S (URL_PAGINATED_SUBMISSIONS C name) (PageJSON page) \<and>
            well_formed_page C page) continuation"
    by (simp_all add: history_served_def)
  have sel: "select_filings None (FilingsJSON recent (map fst continuation)) =
      Inr (recent, map fst continuation)"
    by (simp add: select_filings_def)
  from assms have lim: "limit md = 0 + int (nat (limit md))" and pos: "0 < nat (limit md)"
    by simp_all
  from pages_loop_well_formed [OF first sel wf rest lim pos, of "[]" log]
  show "aggregate_forms_to_download C S md log =
              (Inr (take (nat (limit md))
                      (concat (map (page_descriptors C md) (recent # map snd continuation)))),
               log @ map (\<lambda>u. (u, HOST_DATA_SEC C))
                       (take (pages_needed (nat (limit md))
                                (map (\<lambda>p. length (page_descriptors C md p))
                                   (recent # map snd continuation)))
                          (URL_SUBMISSIONS C (cik md) #
                           map (\<lambda>(name, page). URL_PAGINATED_SUBMISSIONS C name) continuation)))"
    by (simp add: aggregate_forms_to_download_def)
qed

lemma example_history_served:
  "history_served example_constants example_history_session example_request example_recent
     example_continuation"
  by code_simp

lemma example_first_descriptor:
  "take (nat (limit example_request))
     (concat (map (page_descriptors example_constants example_request)
        (example_recent # map snd example_continuation))) =
   [\<lparr>form = ''10-K'',
     raw_filing_uri = ''https://www.sec.gov/Archives/edgar/data/320193/000032019320000096/0000320193-20-000096.txt'',
     primary_doc_uri = ''https://www.sec.gov/Archives/edgar/data/320193/000032019320000096/aapl-20200926.htm'',
     accession_number = ''0000320193-20-000096'',
     details_doc_suffix = ''.html''\<rparr>]"
  by code_simp

lemma example_one_request:
  "[] @ map (\<lambda>u. (u, HOST_DATA_SEC example_constants))
     (take (pages_needed (nat (limit example_request))
              (map (\<lambda>p. length (page_descriptors example_constants example_request p))
                 (example_recent # map snd example_continuation)))
        (URL_SUBMISSIONS example_constants (cik example_request) #
         map (\<lambda>(name, page). URL_PAGINATED_SUBMISSIONS example_constants name)
           example_continuation)) =
   [(''https://data.sec.gov/submissions/CIK0000320193.json'', ''data.sec.gov'')]"
  by code_simp

theorem aggregate_forms_to_download_limit_witness:
  "1 \<le> limit example_request \<and>
   history_served example_constants example_history_session example_request example_recent
     example_continuation \<and>
   aggregate_forms_to_download example_constants example_history_session example_request [] =
     (Inr [\<lparr>form = ''10-K'',
            raw_filing_uri = ''https://www.sec.gov/Archives/edgar/data/320193/000032019320000096/0000320193-20-000096.txt'',
            primary_doc_uri = ''https://www.sec.gov/Archives/edgar/data/320193/000032019320000096/aapl-20200926.htm'',
            accession_number = ''0000320193-20-000096'',
            details_doc_suffix = ''.html''\<rparr>],
      [(''https://data.sec.gov/submissions/CIK0000320193.json'', ''data.sec.gov'')]) \<and>
   int (length [\<lparr>form = ''10-K'',
            raw_filing_uri = ''https://www.sec.gov/Archives/edgar/data/320193/000032019320000096/0000320193-20-000096.txt'',
            primary_doc_uri = ''https://www.sec.gov/Archives/edgar/data/320193/000032019320000096/aapl-20200926.htm'',
            accession_number = ''0000320193-20-000096'',
            details_doc_suffix = ''.html''\<rparr>]) \<le> limit example_request"
proof -
  let ?d = "\<lparr>form = ''10-K'',
            raw_filing_uri = ''https://www.sec.gov/Archives/edgar/data/320193/000032019320000096/0000320193-20-000096.txt'',
            primary_doc_uri = ''https://www.sec.gov/Archives/edgar/data/320193/000032019320000096/aapl-20200926.htm'',
            accession_number = ''0000320193-20-000096'',
            details_doc_suffix = ''.html''\<rparr>"
  let ?log = "[(''https://data.sec.gov/submissions/CIK0000320193.json'', ''data.sec.gov'')]"
  have h: "1 \<le> limit example_request" by (simp add: example_request_def)
  note inst = aggregate_forms_to_download_limit
    [OF h, of example_constants example_history_session "[]" "[?d]" ?log
       example_recent example_continuation]
  from inst example_history_served
  have "aggregate_forms_to_download example_constants example_history_session example_request [] =
      (Inr (take (nat (limit example_request))
         (concat (map (page_descriptors example_constants example_request)
            (example_recent # map snd example_continuation)))),
       [] @ map (\<lambda>u. (u, HOST_DATA_SEC example_constants))
         (take (pages_needed (nat (limit example_request))
              (map (\<lambda>p. length (page_descriptors example_constants example_request p))
                 (example_recent # map snd example_continuation)))
            (URL_SUBMISSIONS example_constants (cik example_request) #
             map (\<lambda>(name, page). URL_PAGINATED_SUBMISSIONS example_constants name)
               example_continuation)))"
    by blast
  then have run: "aggregate_forms_to_download example_constants example_history_session
      example_request [] = (Inr [?d], ?log)"
    by (simp only: example_first_descriptor example_one_request)
  with inst have "int (length [?d]) \<le> limit example_request" by blast
  with h example_history_served run show ?thesis by blast
qed

section \<open>The rows that the aggregator accepts\<close>

text \<open>
  The test of the row loop lets a row through exactly when its form is one of the
  caller's forms, the form does not end with the amendment suffix unless amendments
  are included, and its filing date parses to a date of the window, both ends
  included.
\<close>

lemma row_skipped_accepts:
  "(row_skipped C md form_arg f_date = Inr False) =
     (form_arg \<in> set (forms md) \<and>
      (include_amends md \<or> \<not> endswith form_arg (AMENDS_SUFFIX C)) \<and>
      (case strptime C f_date of
         None \<Rightarrow> False
       | Some target_date \<Rightarrow> date_le (after md) target_date \<and> date_le target_date (before md)))"
  by (auto simp: row_skipped_def within_requested_date_range_def split: option.splits)

lemma page_descriptors_accepted:
  "concat (map (page_descriptors C md) pages) =
     map (\<lambda>(acc_num, form_arg, doc, f_date). get_to_download C (cik md) acc_num form_arg doc)
       (filter (\<lambda>(acc_num, form_arg, doc, f_date).
                  form_arg \<in> set (forms md) \<and>
                  (include_amends md \<or> \<not> endswith form_arg (AMENDS_SUFFIX C)) \<and>
                  (case strptime C f_date of
                     None \<Rightarrow> False
                   | Some target_date \<Rightarrow>
                       date_le (after md) target_date \<and> date_le target_date (before md)))
          (concat (map page_rows pages)))"
proof -
  have same: "(\<lambda>(acc_num, form_arg, doc, f_date). row_skipped C md form_arg f_date = Inr False) =
        (\<lambda>(acc_num :: string, form_arg, doc :: string, f_date).
                  form_arg \<in> set (forms md) \<and>
                  (include_amends md \<or> \<not> endswith form_arg (AMENDS_SUFFIX C)) \<and>
                  (case strptime C f_date of
                     None \<Rightarrow> False
                   | Some target_date \<Rightarrow>
                       date_le (after md) target_date \<and> date_le target_date (before md)))"
    by (simp only: row_skipped_accepts)
  have "concat (map (page_descriptors C md) pages) =
     map (\<lambda>(acc_num, form_arg, doc, f_date). get_to_download C (cik md) acc_num form_arg doc)
       (filter (\<lambda>(acc_num, form_arg, doc, f_date). row_skipped C md form_arg f_date = Inr False)
          (concat (map page_rows pages)))"
    by (induction pages) (simp_all add: page_descriptors_def)
  then show ?thesis by (simp only: same)
qed

lemma aggregate_forms_to_download_no_limit:
  assumes "\<not> 1 \<le> limit md"
  shows "aggregate_forms_to_download C S md log = (Inr [], log)"
  using assms by (simp add: aggregate_forms_to_download_def pages_loop.simps)

lemma aggregate_forms_to_download_served:
  assumes served: "history_served C S md recent continuation"
  shows "fst (aggregate_forms_to_download C S md log) =
     Inr (take (nat (limit md))
            (concat (map (page_descriptors C md) (recent # map snd continuation))))"
proof (cases "1 \<le> limit md")
  case False
  then show ?thesis by (simp add: aggregate_forms_to_download_no_limit)
next
  case True
  from served have first: "served_page C S (URL_SUBMISSIONS C (cik md))
                      (FilingsJSON recent (map fst continuation))"
    and wf: "well_formed_page C recent"
    and rest: "list_all (\<lambda>(name, page).
            served_page C S (URL_PAGINATED_SUBMISSIONS C name) (PageJSON page) \<and>
            well_formed_page C page) continuation"
    by (simp_all add: history_served_def)
  have sel: "select_filings None (FilingsJSON recent (map fst continuation)) =
      Inr (recent, map fst continuation)"
    by (simp add: select_filings_def)
  from True have lim: "limit md = 0 + int (nat (limit md))" and pos: "0 < nat (limit md)"
    by simp_all
  from pages_loop_well_formed [OF first sel wf rest lim pos, of "[]" log]
  show ?thesis by (simp add: aggregate_forms_to_download_def)
qed

text \<open>
  C6.  The aggregator accepts a row, that is, appends its descriptor to the list it
  returns, if and only if the form type is one of the caller's forms, the form type
  does not end with the amendment suffix unless amendments are included, and the
  filing date \<open>d\<close> satisfies \<open>after \<le> d \<le> before\<close>, both ends included.  In the row
  loop: at a row whose filing date parses to \<open>d\<close>, the loop goes on (or returns, at the
  limit) with the descriptor of the row appended and the count one higher when the
  three conditions hold, and goes on with the list and the count as they were when
  they do not.  In the whole call: when the session serves a filing history of
  well-formed pages, what \<open>aggregate_forms_to_download\<close> returns is the descriptors of
  the rows of the pages that satisfy the three conditions, in order, up to the limit.
\<close>

theorem row_accepted_iff:
  "(strptime C f_date = Some d \<longrightarrow>
      rows_loop C md (acc_num # accession_numbers) (form_arg # form_list) (doc # documents)
          (f_date # filing_dates) filings n =
        (if form_arg \<in> set (forms md) \<and>
            (include_amends md \<or> \<not> endswith form_arg (AMENDS_SUFFIX C)) \<and>
            date_le (after md) d \<and> date_le d (before md)
         then if n + 1 = limit md
              then Inr (Returned (filings @ [get_to_download C (cik md) acc_num form_arg doc]))
              else rows_loop C md accession_numbers form_list documents filing_dates
                     (filings @ [get_to_download C (cik md) acc_num form_arg doc]) (n + 1)
         else rows_loop C md accession_numbers form_list documents filing_dates filings n)) \<and>
   (history_served C S md recent continuation \<longrightarrow>
      fst (aggregate_forms_to_download C S md log) =
        Inr (take (nat (limit md))
          (map (\<lambda>(acc_num, form_arg, doc, f_date).
                  get_to_download C (cik md) acc_num form_arg doc)
             (filter (\<lambda>(acc_num, form_arg, doc, f_date).
                        form_arg \<in> set (forms md) \<and>
                        (include_amends md \<or> \<not> endswith form_arg (AMENDS_SUFFIX C)) \<and>
                        (case strptime C f_date of
                           None \<Rightarrow> False
                         | Some target_date \<Rightarrow>
                             date_le (after md) target_date \<and>
                             date_le target_date (before md)))
                (concat (map page_rows (recent # map snd continuation)))))))"
proof (intro conjI impI)
  assume "strptime C f_date = Some d"
  then show "rows_loop C md (acc_num # accession_numbers) (form_arg # form_list) (doc # documents)
          (f_date # filing_dates) filings n =
        (if form_arg \<in> set (forms md) \<and>
            (include_amends md \<or> \<not> endswith form_arg (AMENDS_SUFFIX C)) \<and>
            date_le (after md) d \<and> date_le d (before md)
         then if n + 1 = limit md
              then Inr (Returned (filings @ [get_to_download C (cik md) acc_num form_arg doc]))
              else rows_loop C md accession_numbers form_list documents filing_dates
                     (filings @ [get_to_download C (cik md) acc_num form_arg doc]) (n + 1)
         else rows_loop C md accession_numbers form_list documents filing_dates filings n)"
    by (simp add: row_skipped_def within_requested_date_range_def Let_def)
next
  assume "history_served C S md recent continuation"
  then have "fst (aggregate_forms_to_download C S md log) =
     Inr (take (nat (limit md))
            (concat (map (page_descriptors C md) (recent # map snd continuation))))"
    by (rule aggregate_forms_to_download_served)
  then show "fst (aggregate_forms_to_download C S md log) =
        Inr (take (nat (limit md))
          (map (\<lambda>(acc_num, form_arg, doc, f_date).
                  get_to_download C (cik md) acc_num form_arg doc)
             (filter (\<lambda>(acc_num, form_arg, doc, f_date).
                        form_arg \<in> set (forms md) \<and>
                        (include_amends md \<or> \<not> endswith form_arg (AMENDS_SUFFIX C)) \<and>
                        (case strptime C f_date of
                           None \<Rightarrow> False
                         | Some target_date \<Rightarrow>
                             date_le (after md) target_date \<and>
                             date_le target_date (before md)))
                (concat (map page_rows (recent # map snd continuation))))))"
    by (simp only: page_descriptors_accepted)
qed

text \<open>
  A request for up to five annual reports of 2020, amendments excluded, on the
  history of the example: of the four rows the two annual reports of 2020 are
  accepted; the current report (form) and the annual report of 2019 (date) are not.
\<close>

lemma example_history_served_five:
  "history_served example_constants example_history_session (example_request\<lparr>limit := 5\<rparr>)
     example_recent example_continuation"
  by code_simp

lemma example_accepted_rows:
  "take (nat (limit (example_request\<lparr>limit := 5\<rparr>)))
     (map (\<lambda>(acc_num, form_arg, doc, f_date).
             get_to_download example_constants (cik (example_request\<lparr>limit := 5\<rparr>))
               acc_num form_arg doc)
        (filter (\<lambda>(acc_num, form_arg, doc, f_date).
                   form_arg \<in> set (forms (example_request\<lparr>limit := 5\<rparr>)) \<and>
                   (include_amends (example_request\<lparr>limit := 5\<rparr>) \<or>
                    \<not> endswith form_arg (AMENDS_SUFFIX example_constants)) \<and>
                   (case strptime example_constants f_date of
                      None \<Rightarrow> False
                    | Some target_date \<Rightarrow>
                        date_le (after (example_request\<lparr>limit := 5\<rparr>)) target_date \<and>
                        date_le target_date (before (example_request\<lparr>limit := 5\<rparr>))))
           (concat (map page_rows (example_recent # map snd example_continuation))))) =
   [\<lparr>form = ''10-K'',
     raw_filing_uri = ''https://www.sec.gov/Archives/edgar/data/320193/000032019320000096/0000320193-20-000096.txt'',
     primary_doc_uri = ''https://www.sec.gov/Archives/edgar/data/320193/000032019320000096/aapl-20200926.htm'',
     accession_number = ''0000320193-20-000096'',
     details_doc_suffix = ''.html''\<rparr>,
    \<lparr>form = ''10-K'',
     raw_filing_uri = ''https://www.sec.gov/Archives/edgar/data/320193/000032019320000010/0000320193-20-000010.txt'',
     primary_doc_uri = ''https://www.sec.gov/Archives/edgar/data/320193/000032019320000010/a10-k20200301.htm'',
     accession_number = ''0000320193-20-000010'',
     details_doc_suffix = ''.html''\<rparr>]"
  by code_simp

lemma example_row_step:
  "(if ''10-K'' \<in> set (forms (example_request\<lparr>limit := 5\<rparr>)) \<and>
       (include_amends (example_request\<lparr>limit := 5\<rparr>) \<or>
        \<not> endswith ''10-K'' (AMENDS_SUFFIX example_constants)) \<and>
       date_le (after (example_request\<lparr>limit := 5\<rparr>)) \<lparr>year = 2020, month = 3, day = 1\<rparr> \<and>
       date_le \<lparr>year = 2020, month = 3, day = 1\<rparr> (before (example_request\<lparr>limit := 5\<rparr>))
    then if (0::int) + 1 = limit (example_request\<lparr>limit := 5\<rparr>)
         then Inr (Returned ([] @ [get_to_download example_constants
                 (cik (example_request\<lparr>limit := 5\<rparr>))
                 ''0000320193-20-000010'' ''10-K'' ''a10-k20200301.htm'']))
         else rows_loop example_constants (example_request\<lparr>limit := 5\<rparr>) [] [] [] []
                ([] @ [get_to_download example_constants (cik (example_request\<lparr>limit := 5\<rparr>))
                   ''0000320193-20-000010'' ''10-K'' ''a10-k20200301.htm'']) (0 + 1)
    else rows_loop example_constants (example_request\<lparr>limit := 5\<rparr>) [] [] [] [] [] 0) =
   Inr (Completed
     [\<lparr>form = ''10-K'',
       raw_filing_uri = ''https://www.sec.gov/Archives/edgar/data/320193/000032019320000010/0000320193-20-000010.txt'',
       primary_doc_uri = ''https://www.sec.gov/Archives/edgar/data/320193/000032019320000010/a10-k20200301.htm'',
       accession_number = ''0000320193-20-000010'',
       details_doc_suffix = ''.html''\<rparr>] 1)"
  by code_simp

theorem row_accepted_iff_witness:
  "strptime example_constants ''2020-03-01'' = Some \<lparr>year = 2020, month = 3, day = 1\<rparr> \<and>
   rows_loop example_constants (example_request\<lparr>limit := 5\<rparr>)
     [''0000320193-20-000010''] [''10-K''] [''a10-k20200301.htm''] [''2020-03-01''] [] 0 =
     Inr (Completed
       [\<lparr>form = ''10-K'',
         raw_filing_uri = ''https://www.sec.gov/Archives/edgar/data/320193/000032019320000010/0000320193-20-000010.txt'',
         primary_doc_uri = ''https://www.sec.gov/Archives/edgar/data/320193/000032019320000010/a10-k20200301.htm'',
         accession_number = ''0000320193-20-000010'',
         details_doc_suffix = ''.html''\<rparr>] 1) \<and>
   history_served example_constants example_history_session (example_request\<lparr>limit := 5\<rparr>)
     example_recent example_continuation \<and>
   fst (aggregate_forms_to_download example_constants example_history_session
          (example_request\<lparr>limit := 5\<rparr>) []) =
     Inr [\<lparr>form = ''10-K'',
           raw_filing_uri = ''https://www.sec.gov/Archives/edgar/data/320193/000032019320000096/0000320193-20-000096.txt'',
           primary_doc_uri = ''https://www.sec.gov/Archives/edgar/data/320193/000032019320000096/aapl-20200926.htm'',
           accession_number = ''0000320193-20-000096'',
           details_doc_suffix = ''.html''\<rparr>,
          \<lparr>form = ''10-K'',
           raw_filing_uri = ''https://www.sec.gov/Archives/edgar/data/320193/000032019320000010/0000320193-20-000010.txt'',
           primary_doc_uri = ''https://www.sec.gov/Archives/edgar/data/320193/000032019320000010/a10-k20200301.htm'',
           accession_number = ''0000320193-20-000010'',
           details_doc_suffix = ''.html''\<rparr>]"
proof -
  have h: "strptime example_constants ''2020-03-01'' = Some \<lparr>year = 2020, month = 3, day = 1\<rparr>"
    by (simp add: example_constants_def example_strptime_2020_03_01)
  note inst = row_accepted_iff
    [where C = example_constants and f_date = "''2020-03-01''"
       and d = "\<lparr>year = 2020, month = 3, day = 1\<rparr>"
       and md = "example_request\<lparr>limit := 5\<rparr>"
       and acc_num = "''0000320193-20-000010''" and accession_numbers = "[]"
       and form_arg = "''10-K''" and form_list = "[]"
       and doc = "''a10-k20200301.htm''" and documents = "[]"
       and filing_dates = "[]" and filings = "[]" and n = 0
       and S = example_history_session and recent = example_recent
       and continuation = example_continuation and log = "[]"]
  from inst h have row: "rows_loop example_constants (example_request\<lparr>limit := 5\<rparr>)
     [''0000320193-20-000010''] [''10-K''] [''a10-k20200301.htm''] [''2020-03-01''] [] 0 =
     Inr (Completed
       [\<lparr>form = ''10-K'',
         raw_filing_uri = ''https://www.sec.gov/Archives/edgar/data/320193/000032019320000010/0000320193-20-000010.txt'',
         primary_doc_uri = ''https://www.sec.gov/Archives/edgar/data/320193/000032019320000010/a10-k20200301.htm'',
         accession_number = ''0000320193-20-000010'',
         details_doc_suffix = ''.html''\<rparr>] 1)"
    by (simp only: example_row_step simp_thms)
  from inst example_history_served_five
  have run: "fst (aggregate_forms_to_download example_constants example_history_session
          (example_request\<lparr>limit := 5\<rparr>) []) =
     Inr [\<lparr>form = ''10-K'',
           raw_filing_uri = ''https://www.sec.gov/Archives/edgar/data/320193/000032019320000096/0000320193-20-000096.txt'',
           primary_doc_uri = ''https://www.sec.gov/Archives/edgar/data/320193/000032019320000096/aapl-20200926.htm'',
           accession_number = ''0000320193-20-000096'',
           details_doc_suffix = ''.html''\<rparr>,
          \<lparr>form = ''10-K'',
           raw_filing_uri = ''https://www.sec.gov/Archives/edgar/data/320193/000032019320000010/0000320193-20-000010.txt'',
           primary_doc_uri = ''https://www.sec.gov/Archives/edgar/data/320193/000032019320000010/a10-k20200301.htm'',
           accession_number = ''0000320193-20-000010'',
           details_doc_suffix = ''.html''\<rparr>]"
    by (simp only: example_accepted_rows simp_thms)
  from h row example_history_served_five run show ?thesis by blast
qed

end
